theory Spec2Isabelle
  imports Main "HOL-Library.Word" "HOL-Library.Sublist"
begin

section \<open>The DSR maintenance buffer (src/dsr/model/dsr-maintain-buff.cc)\<close>

subsection \<open>Data model\<close>

text \<open>
  The entry class \<open>DsrMaintainBuffEntry\<close> and the members of \<open>DsrMaintainBuffer\<close> are
  declared in dsr-maintain-buff.h. An \<open>Ipv4Address\<close> is a 32-bit value compared with
  \<open>==\<close>; an ns-3 \<open>Time\<close> is a signed tick count, modelled as an unbounded integer.
  The packet handle takes no part in any comparison.
\<close>

type_synonym Ipv4Address = "32 word"
type_synonym Time = int

text \<open>
  Modelled from the spec: the class \<open>DsrMaintainBuffEntry\<close> of dsr-maintain-buff.h
  (packet, ourAddress, nextHop, source, destination, ackId, segsLeft, expireTime).
\<close>

record DsrMaintainBuffEntry =
  m_packet :: nat
  m_ourAdd :: Ipv4Address
  m_nextHop :: Ipv4Address
  m_src :: Ipv4Address
  m_dst :: Ipv4Address
  m_ackId :: "16 word"
  m_segsLeft :: "8 word"
  m_expire :: Time

abbreviation GetOurAdd :: "DsrMaintainBuffEntry \<Rightarrow> Ipv4Address" where
  "GetOurAdd \<equiv> m_ourAdd"

abbreviation GetNextHop :: "DsrMaintainBuffEntry \<Rightarrow> Ipv4Address" where
  "GetNextHop \<equiv> m_nextHop"

abbreviation GetSrc :: "DsrMaintainBuffEntry \<Rightarrow> Ipv4Address" where
  "GetSrc \<equiv> m_src"

abbreviation GetDst :: "DsrMaintainBuffEntry \<Rightarrow> Ipv4Address" where
  "GetDst \<equiv> m_dst"

abbreviation GetAckId :: "DsrMaintainBuffEntry \<Rightarrow> 16 word" where
  "GetAckId \<equiv> m_ackId"

abbreviation GetSegsLeft :: "DsrMaintainBuffEntry \<Rightarrow> 8 word" where
  "GetSegsLeft \<equiv> m_segsLeft"

text \<open>
  Modelled from the spec: \<open>SetExpireTime\<close> of dsr-maintain-buff.h. The spec has
  \<open>entry.expireTime = now + timeout\<close>, an absolute deadline; \<open>now\<close> is the value of
  the simulator clock (\<open>Simulator::Now ()\<close>) at the call.
\<close>

definition SetExpireTime :: "Time \<Rightarrow> Time \<Rightarrow> DsrMaintainBuffEntry \<Rightarrow> DsrMaintainBuffEntry" where
  "SetExpireTime now exp e = e\<lparr>m_expire := exp + now\<rparr>"

text \<open>
  Modelled from the spec: \<open>GetExpireTime\<close> of dsr-maintain-buff.h, the time left until
  the stored deadline (negative once the deadline has passed).
\<close>

definition GetExpireTime :: "Time \<Rightarrow> DsrMaintainBuffEntry \<Rightarrow> Time" where
  "GetExpireTime now e = m_expire e - now"

text \<open>Modelled from the spec: \<open>Time::IsStrictlyNegative\<close> of ns-3's nstime.h.\<close>

definition IsStrictlyNegative :: "Time \<Rightarrow> bool" where
  "IsStrictlyNegative t \<longleftrightarrow> t < 0"

text \<open>The functor \<open>IsExpired\<close> (lines 221-233).\<close>

definition IsExpired :: "Time \<Rightarrow> DsrMaintainBuffEntry \<Rightarrow> bool" where
  "IsExpired now e = IsStrictlyNegative (GetExpireTime now e)"

text \<open>
  The buffer object: the vector of entries (front first), the capacity (a
  \<open>uint32_t\<close>) and the timeout.
\<close>

record DsrMaintainBuffer =
  m_maintainBuffer :: "DsrMaintainBuffEntry list"
  m_maxLen :: "32 word"
  m_maintainBufferTimeout :: Time

text \<open>
  \<open>v.erase (v.begin ())\<close> on an empty vector has no defined behaviour; the model stops
  there with this value.
\<close>

datatype fault = EraseAtEnd

subsection \<open>Operations\<close>

text \<open>
  The idiom \<open>v.erase (std::remove_if (v.begin (), v.end (), pred), v.end ())\<close>: one pass
  from the front that keeps, in order, the elements on which \<open>pred\<close> is false.
\<close>

fun erase_remove_if :: "('a \<Rightarrow> bool) \<Rightarrow> 'a list \<Rightarrow> 'a list" where
  "erase_remove_if pred [] = []"
| "erase_remove_if pred (x # xs) =
     (if pred x then erase_remove_if pred xs else x # erase_remove_if pred xs)"

text \<open>\<open>Purge\<close> (lines 235-242).\<close>

definition Purge :: "Time \<Rightarrow> DsrMaintainBuffer \<Rightarrow> DsrMaintainBuffer" where
  "Purge now b = b\<lparr>m_maintainBuffer := erase_remove_if (IsExpired now) (m_maintainBuffer b)\<rparr>"

text \<open>
  \<open>GetSize\<close> (lines 37-42): the vector's \<open>size ()\<close> is converted to the \<open>uint32_t\<close>
  return type.
\<close>

definition GetSize :: "Time \<Rightarrow> DsrMaintainBuffer \<Rightarrow> 32 word \<times> DsrMaintainBuffer" where
  "GetSize now b = (let b' = Purge now b in (of_nat (length (m_maintainBuffer b')), b'))"

text \<open>The duplicate scan of \<open>Enqueue\<close> (lines 48-66): true when the loop returns early.\<close>

fun Enqueue_scan :: "DsrMaintainBuffEntry \<Rightarrow> DsrMaintainBuffEntry list \<Rightarrow> bool" where
  "Enqueue_scan entry [] = False"
| "Enqueue_scan entry (i # rest) =
     (if GetNextHop i = GetNextHop entry \<and> GetOurAdd i = GetOurAdd entry \<and>
         GetSrc i = GetSrc entry \<and> GetDst i = GetDst entry \<and>
         GetAckId i = GetAckId entry \<and> GetSegsLeft i = GetSegsLeft entry
      then True
      else Enqueue_scan entry rest)"

text \<open>
  \<open>Enqueue\<close> (lines 44-76). The argument is a reference, so the entry as the caller sees
  it afterwards is returned with the result and the buffer. The comparison
  \<open>m_maintainBuffer.size () >= m_maxLen\<close> is unsigned, at the width of \<open>size_t\<close>.
\<close>

definition Enqueue ::
  "Time \<Rightarrow> DsrMaintainBuffEntry \<Rightarrow> DsrMaintainBuffer \<Rightarrow>
   fault + (bool \<times> DsrMaintainBuffEntry \<times> DsrMaintainBuffer)" where
  "Enqueue now entry b0 =
     (let b = Purge now b0 in
      if Enqueue_scan entry (m_maintainBuffer b) then Inr (False, entry, b)
      else
        let entry' = SetExpireTime now (m_maintainBufferTimeout b) entry in
        if length (m_maintainBuffer b) \<ge> unat (m_maxLen b) then
          (case m_maintainBuffer b of
             [] \<Rightarrow> Inl EraseAtEnd
           | _ # rest \<Rightarrow> Inr (True, entry', b\<lparr>m_maintainBuffer := rest @ [entry']\<rparr>))
        else Inr (True, entry', b\<lparr>m_maintainBuffer := m_maintainBuffer b @ [entry']\<rparr>))"

text \<open>\<open>DropPacketWithNextHop\<close> (lines 78-90).\<close>

definition DropPacketWithNextHop :: "Time \<Rightarrow> Ipv4Address \<Rightarrow> DsrMaintainBuffer \<Rightarrow> DsrMaintainBuffer" where
  "DropPacketWithNextHop now nextHop b0 =
     (let b = Purge now b0 in
      b\<lparr>m_maintainBuffer :=
          erase_remove_if (\<lambda>en. GetNextHop en = nextHop) (m_maintainBuffer b)\<rparr>)"

text \<open>
  The loop of \<open>Dequeue\<close> (lines 96-106): the result, the out-parameter \<open>entry\<close> and the
  vector after the loop.
\<close>

fun Dequeue_scan ::
  "Ipv4Address \<Rightarrow> DsrMaintainBuffEntry \<Rightarrow> DsrMaintainBuffEntry list \<Rightarrow>
   bool \<times> DsrMaintainBuffEntry \<times> DsrMaintainBuffEntry list" where
  "Dequeue_scan nextHop entry [] = (False, entry, [])"
| "Dequeue_scan nextHop entry (i # rest) =
     (if GetNextHop i = nextHop then (True, i, rest)
      else (case Dequeue_scan nextHop entry rest of
              (found, entry', rest') \<Rightarrow> (found, entry', i # rest')))"

text \<open>
  \<open>Dequeue\<close> (lines 92-107). The log statements of the file, here and elsewhere,
  are not modelled.
\<close>

definition Dequeue ::
  "Time \<Rightarrow> Ipv4Address \<Rightarrow> DsrMaintainBuffEntry \<Rightarrow> DsrMaintainBuffer \<Rightarrow>
   bool \<times> DsrMaintainBuffEntry \<times> DsrMaintainBuffer" where
  "Dequeue now nextHop entry b0 =
     (let b = Purge now b0 in
      case Dequeue_scan nextHop entry (m_maintainBuffer b) of
        (found, entry', buf') \<Rightarrow> (found, entry', b\<lparr>m_maintainBuffer := buf'\<rparr>))"

text \<open>\<open>Find\<close> (lines 109-121): the loop, and the member function with the buffer it leaves.\<close>

fun Find_scan :: "Ipv4Address \<Rightarrow> DsrMaintainBuffEntry list \<Rightarrow> bool" where
  "Find_scan nextHop [] = False"
| "Find_scan nextHop (i # rest) =
     (if GetNextHop i = nextHop then True else Find_scan nextHop rest)"

definition Find :: "Ipv4Address \<Rightarrow> DsrMaintainBuffer \<Rightarrow> bool \<times> DsrMaintainBuffer" where
  "Find nextHop b = (Find_scan nextHop (m_maintainBuffer b), b)"

text \<open>\<open>AllEqual\<close> (lines 123-145).\<close>

fun AllEqual_scan ::
  "DsrMaintainBuffEntry \<Rightarrow> DsrMaintainBuffEntry list \<Rightarrow> bool \<times> DsrMaintainBuffEntry list" where
  "AllEqual_scan entry [] = (False, [])"
| "AllEqual_scan entry (i # rest) =
     (if GetOurAdd i = GetOurAdd entry \<and> GetNextHop i = GetNextHop entry \<and>
         GetSrc i = GetSrc entry \<and> GetDst i = GetDst entry \<and>
         GetAckId i = GetAckId entry \<and> GetSegsLeft i = GetSegsLeft entry
      then (True, rest)
      else (case AllEqual_scan entry rest of (found, rest') \<Rightarrow> (found, i # rest')))"

definition AllEqual :: "DsrMaintainBuffEntry \<Rightarrow> DsrMaintainBuffer \<Rightarrow> bool \<times> DsrMaintainBuffer" where
  "AllEqual entry b =
     (case AllEqual_scan entry (m_maintainBuffer b) of
        (found, buf') \<Rightarrow> (found, b\<lparr>m_maintainBuffer := buf'\<rparr>))"

text \<open>\<open>NetworkEqual\<close> (lines 147-169).\<close>

fun NetworkEqual_scan ::
  "DsrMaintainBuffEntry \<Rightarrow> DsrMaintainBuffEntry list \<Rightarrow> bool \<times> DsrMaintainBuffEntry list" where
  "NetworkEqual_scan entry [] = (False, [])"
| "NetworkEqual_scan entry (i # rest) =
     (if GetOurAdd i = GetOurAdd entry \<and> GetNextHop i = GetNextHop entry \<and>
         GetSrc i = GetSrc entry \<and> GetDst i = GetDst entry \<and>
         GetAckId i = GetAckId entry
      then (True, rest)
      else (case NetworkEqual_scan entry rest of (found, rest') \<Rightarrow> (found, i # rest')))"

definition NetworkEqual :: "DsrMaintainBuffEntry \<Rightarrow> DsrMaintainBuffer \<Rightarrow> bool \<times> DsrMaintainBuffer" where
  "NetworkEqual entry b =
     (case NetworkEqual_scan entry (m_maintainBuffer b) of
        (found, buf') \<Rightarrow> (found, b\<lparr>m_maintainBuffer := buf'\<rparr>))"

text \<open>\<open>PromiscEqual\<close> (lines 171-194).\<close>

fun PromiscEqual_scan ::
  "DsrMaintainBuffEntry \<Rightarrow> DsrMaintainBuffEntry list \<Rightarrow> bool \<times> DsrMaintainBuffEntry list" where
  "PromiscEqual_scan entry [] = (False, [])"
| "PromiscEqual_scan entry (i # rest) =
     (if GetSrc i = GetSrc entry \<and> GetDst i = GetDst entry \<and>
         GetSegsLeft i = GetSegsLeft entry \<and> GetAckId i = GetAckId entry
      then (True, rest)
      else (case PromiscEqual_scan entry rest of (found, rest') \<Rightarrow> (found, i # rest')))"

definition PromiscEqual :: "DsrMaintainBuffEntry \<Rightarrow> DsrMaintainBuffer \<Rightarrow> bool \<times> DsrMaintainBuffer" where
  "PromiscEqual entry b =
     (case PromiscEqual_scan entry (m_maintainBuffer b) of
        (found, buf') \<Rightarrow> (found, b\<lparr>m_maintainBuffer := buf'\<rparr>))"

text \<open>\<open>LinkEqual\<close> (lines 196-218).\<close>

fun LinkEqual_scan ::
  "DsrMaintainBuffEntry \<Rightarrow> DsrMaintainBuffEntry list \<Rightarrow> bool \<times> DsrMaintainBuffEntry list" where
  "LinkEqual_scan entry [] = (False, [])"
| "LinkEqual_scan entry (i # rest) =
     (if GetSrc i = GetSrc entry \<and> GetDst i = GetDst entry \<and>
         GetOurAdd i = GetOurAdd entry \<and> GetNextHop i = GetNextHop entry
      then (True, rest)
      else (case LinkEqual_scan entry rest of (found, rest') \<Rightarrow> (found, i # rest')))"

definition LinkEqual :: "DsrMaintainBuffEntry \<Rightarrow> DsrMaintainBuffer \<Rightarrow> bool \<times> DsrMaintainBuffer" where
  "LinkEqual entry b =
     (case LinkEqual_scan entry (m_maintainBuffer b) of
        (found, buf') \<Rightarrow> (found, b\<lparr>m_maintainBuffer := buf'\<rparr>))"

subsection \<open>Notions used to state the properties\<close>

text \<open>
  The four field sets the specification names for the reconciliation operations
  (\<open>matchExact\<close>, \<open>matchNetworkAck\<close>, \<open>matchPromiscuous\<close>, \<open>matchLinkLayer\<close>): the
  buffered entry \<open>x\<close> agrees with the probe \<open>e\<close> on them.
\<close>

definition same_all :: "DsrMaintainBuffEntry \<Rightarrow> DsrMaintainBuffEntry \<Rightarrow> bool" where
  "same_all x e \<longleftrightarrow>
     m_ourAdd x = m_ourAdd e \<and> m_nextHop x = m_nextHop e \<and> m_src x = m_src e \<and>
     m_dst x = m_dst e \<and> m_ackId x = m_ackId e \<and> m_segsLeft x = m_segsLeft e"

definition same_network :: "DsrMaintainBuffEntry \<Rightarrow> DsrMaintainBuffEntry \<Rightarrow> bool" where
  "same_network x e \<longleftrightarrow>
     m_ourAdd x = m_ourAdd e \<and> m_nextHop x = m_nextHop e \<and> m_src x = m_src e \<and>
     m_dst x = m_dst e \<and> m_ackId x = m_ackId e"

definition same_promisc :: "DsrMaintainBuffEntry \<Rightarrow> DsrMaintainBuffEntry \<Rightarrow> bool" where
  "same_promisc x e \<longleftrightarrow>
     m_src x = m_src e \<and> m_dst x = m_dst e \<and> m_segsLeft x = m_segsLeft e \<and>
     m_ackId x = m_ackId e"

definition same_link :: "DsrMaintainBuffEntry \<Rightarrow> DsrMaintainBuffEntry \<Rightarrow> bool" where
  "same_link x e \<longleftrightarrow>
     m_src x = m_src e \<and> m_dst x = m_dst e \<and> m_ourAdd x = m_ourAdd e \<and>
     m_nextHop x = m_nextHop e"

text \<open>The full-tuple key of the specification.\<close>

definition full_key ::
  "DsrMaintainBuffEntry \<Rightarrow>
   Ipv4Address \<times> Ipv4Address \<times> Ipv4Address \<times> Ipv4Address \<times> 16 word \<times> 8 word" where
  "full_key e = (m_nextHop e, m_ourAdd e, m_src e, m_dst e, m_ackId e, m_segsLeft e)"

text \<open>
  A list without its earliest element that satisfies \<open>P\<close>: the elements in front of it
  and the elements behind it stay, in order. When no element satisfies \<open>P\<close> it is the
  list itself.
\<close>

definition without_first :: "('a \<Rightarrow> bool) \<Rightarrow> 'a list \<Rightarrow> 'a list" where
  "without_first P xs = takeWhile (\<lambda>x. \<not> P x) xs @ drop 1 (dropWhile (\<lambda>x. \<not> P x) xs)"

text \<open>The common shape of the four erase-on-first-match loops, used in the proofs.\<close>

fun erase_first :: "('a \<Rightarrow> bool) \<Rightarrow> 'a list \<Rightarrow> bool \<times> 'a list" where
  "erase_first P [] = (False, [])"
| "erase_first P (x # xs) =
     (if P x then (True, xs)
      else (case erase_first P xs of (found, ys) \<Rightarrow> (found, x # ys)))"

text \<open>
  A caller that enqueues a list of entries one after the other, each at its own clock
  value, and stops at the first call that has no defined behaviour.
\<close>

fun Enqueue_seq ::
  "(Time \<times> DsrMaintainBuffEntry) list \<Rightarrow> DsrMaintainBuffer \<Rightarrow> fault + DsrMaintainBuffer" where
  "Enqueue_seq [] b = Inr b"
| "Enqueue_seq ((now, entry) # rest) b =
     (case Enqueue now entry b of
        Inl f \<Rightarrow> Inl f
      | Inr (ok, entry', b') \<Rightarrow> Enqueue_seq rest b')"

text \<open>Concrete entries and buffers for the examples.\<close>

definition ex_a :: DsrMaintainBuffEntry where
  "ex_a = \<lparr>m_packet = 1, m_ourAdd = 1, m_nextHop = 2, m_src = 3, m_dst = 4,
           m_ackId = 7, m_segsLeft = 5, m_expire = 100\<rparr>"

definition ex_b :: DsrMaintainBuffEntry where
  "ex_b = \<lparr>m_packet = 2, m_ourAdd = 1, m_nextHop = 2, m_src = 3, m_dst = 4,
           m_ackId = 7, m_segsLeft = 2, m_expire = 200\<rparr>"

definition ex_c :: DsrMaintainBuffEntry where
  "ex_c = \<lparr>m_packet = 3, m_ourAdd = 9, m_nextHop = 8, m_src = 3, m_dst = 4,
           m_ackId = 7, m_segsLeft = 2, m_expire = 5\<rparr>"

definition ex_probe :: DsrMaintainBuffEntry where
  "ex_probe = \<lparr>m_packet = 0, m_ourAdd = 1, m_nextHop = 2, m_src = 3, m_dst = 4,
           m_ackId = 7, m_segsLeft = 2, m_expire = 0\<rparr>"

definition ex_link :: DsrMaintainBuffEntry where
  "ex_link = \<lparr>m_packet = 0, m_ourAdd = 1, m_nextHop = 2, m_src = 3, m_dst = 4,
           m_ackId = 99, m_segsLeft = 77, m_expire = 0\<rparr>"

definition ex_buffer :: "32 word \<Rightarrow> DsrMaintainBuffEntry list \<Rightarrow> DsrMaintainBuffer" where
  "ex_buffer n xs = \<lparr>m_maintainBuffer = xs, m_maxLen = n, m_maintainBufferTimeout = 50\<rparr>"

lemmas ex_defs = ex_a_def ex_b_def ex_c_def ex_probe_def ex_link_def ex_buffer_def

section \<open>Properties\<close>

subsection \<open>Expiry and purge\<close>

lemma erase_remove_if_filter: "erase_remove_if pred xs = filter (\<lambda>x. \<not> pred x) xs"
  by (induction xs) simp_all

lemma IsExpired_iff: "IsExpired now e \<longleftrightarrow> m_expire e < now"
  by (simp add: IsExpired_def IsStrictlyNegative_def GetExpireTime_def)

lemma Purge_buffer:
  "m_maintainBuffer (Purge now b) = filter (\<lambda>x. \<not> IsExpired now x) (m_maintainBuffer b)"
  by (simp add: Purge_def erase_remove_if_filter)

lemma Purge_fields:
  "m_maxLen (Purge now b) = m_maxLen b"
  "m_maintainBufferTimeout (Purge now b) = m_maintainBufferTimeout b"
  by (simp_all add: Purge_def)

lemma Purge_eq:
  "Purge now b = b\<lparr>m_maintainBuffer := filter (\<lambda>x. \<not> IsExpired now x) (m_maintainBuffer b)\<rparr>"
  by (simp add: Purge_def erase_remove_if_filter)

lemma Purge_id: "\<forall>x\<in>set (m_maintainBuffer b). \<not> IsExpired now x \<Longrightarrow> Purge now b = b"
  by (simp add: Purge_eq)

lemma Purge_idem: "Purge now (Purge now b) = Purge now b"
  by (simp add: Purge_eq)

subsection \<open>Removing the earliest qualifying element\<close>

lemma erase_first_fst: "fst (erase_first P xs) \<longleftrightarrow> (\<exists>x\<in>set xs. P x)"
  by (induction xs) (auto split: prod.splits)

lemma erase_first_snd: "snd (erase_first P xs) = without_first P xs"
  by (induction xs) (auto simp add: without_first_def split: prod.splits)

lemma without_first_none: "\<forall>x\<in>set xs. \<not> P x \<Longrightarrow> without_first P xs = xs"
  by (induction xs) (simp_all add: without_first_def)

lemma without_first_split:
  assumes "\<exists>x\<in>set xs. P x"
  shows "\<exists>pre x post. xs = pre @ x # post \<and> (\<forall>y\<in>set pre. \<not> P y) \<and> P x \<and>
           without_first P xs = pre @ post"
proof -
  let ?pre = "takeWhile (\<lambda>x. \<not> P x) xs" and ?rest = "dropWhile (\<lambda>x. \<not> P x) xs"
  from assms have "?rest \<noteq> []" by (simp add: dropWhile_eq_Nil_conv)
  then obtain x post where r: "?rest = x # post" by (cases ?rest) auto
  then have "P x" using hd_dropWhile [of "\<lambda>x. \<not> P x" xs] by simp
  moreover have "xs = ?pre @ x # post" using r takeWhile_dropWhile_id [of "\<lambda>x. \<not> P x" xs] by simp
  moreover have "\<forall>y\<in>set ?pre. \<not> P y" by (auto dest: set_takeWhileD)
  moreover have "without_first P xs = ?pre @ post" by (simp add: without_first_def r)
  ultimately show ?thesis by blast
qed

lemma without_first_subseq: "subseq (without_first P xs) xs"
  by (induction xs) (auto simp add: without_first_def intro: list_emb_Cons)

lemma without_first_set: "set (without_first P xs) \<subseteq> set xs"
  by (auto simp add: without_first_def dest: set_takeWhileD in_set_dropD set_dropWhileD)

lemma without_first_filter:
  "filter (\<lambda>x. \<not> P x) (without_first P xs) = filter (\<lambda>x. \<not> P x) xs"
  by (induction xs) (simp_all add: without_first_def)

lemma filter_without_first: "filter P (without_first P xs) = drop 1 (filter P xs)"
  by (induction xs) (auto simp add: without_first_def)

lemma without_first_length:
  "length (without_first P xs) = length xs - (if \<exists>x\<in>set xs. P x then 1 else 0)"
  by (induction xs) (auto simp add: without_first_def dest!: length_pos_if_in_set)

subsection \<open>The loops\<close>

lemma same_all_key: "same_all x e \<longleftrightarrow> full_key x = full_key e"
  by (auto simp add: same_all_def full_key_def)

lemma Enqueue_scan_iff: "Enqueue_scan e xs \<longleftrightarrow> (\<exists>x\<in>set xs. same_all x e)"
  by (induction xs) (auto simp add: same_all_def)

lemma Find_scan_iff: "Find_scan nextHop xs \<longleftrightarrow> (\<exists>x\<in>set xs. m_nextHop x = nextHop)"
  by (induction xs) auto

lemma Dequeue_scan_eq:
  "Dequeue_scan nextHop entry xs =
     (case find (\<lambda>x. m_nextHop x = nextHop) xs of
        None \<Rightarrow> (False, entry, xs)
      | Some x \<Rightarrow> (True, x, without_first (\<lambda>x. m_nextHop x = nextHop) xs))"
  by (induction xs) (auto simp add: without_first_def split: option.splits)

lemma AllEqual_scan_eq: "AllEqual_scan e xs = erase_first (\<lambda>x. same_all x e) xs"
  by (induction xs) (simp_all add: same_all_def)

lemma NetworkEqual_scan_eq: "NetworkEqual_scan e xs = erase_first (\<lambda>x. same_network x e) xs"
  by (induction xs) (simp_all add: same_network_def)

lemma PromiscEqual_scan_eq: "PromiscEqual_scan e xs = erase_first (\<lambda>x. same_promisc x e) xs"
  by (induction xs) (simp_all add: same_promisc_def)

lemma LinkEqual_scan_eq: "LinkEqual_scan e xs = erase_first (\<lambda>x. same_link x e) xs"
  by (induction xs) (simp_all add: same_link_def)

lemma AllEqual_eq:
  "AllEqual e b = ((\<exists>x\<in>set (m_maintainBuffer b). same_all x e),
     b\<lparr>m_maintainBuffer := without_first (\<lambda>x. same_all x e) (m_maintainBuffer b)\<rparr>)"
  by (simp add: AllEqual_def AllEqual_scan_eq split: prod.split)
     (metis erase_first_fst erase_first_snd fst_conv snd_conv)

lemma NetworkEqual_eq:
  "NetworkEqual e b = ((\<exists>x\<in>set (m_maintainBuffer b). same_network x e),
     b\<lparr>m_maintainBuffer := without_first (\<lambda>x. same_network x e) (m_maintainBuffer b)\<rparr>)"
  by (simp add: NetworkEqual_def NetworkEqual_scan_eq split: prod.split)
     (metis erase_first_fst erase_first_snd fst_conv snd_conv)

lemma PromiscEqual_eq:
  "PromiscEqual e b = ((\<exists>x\<in>set (m_maintainBuffer b). same_promisc x e),
     b\<lparr>m_maintainBuffer := without_first (\<lambda>x. same_promisc x e) (m_maintainBuffer b)\<rparr>)"
  by (simp add: PromiscEqual_def PromiscEqual_scan_eq split: prod.split)
     (metis erase_first_fst erase_first_snd fst_conv snd_conv)

lemma LinkEqual_eq:
  "LinkEqual e b = ((\<exists>x\<in>set (m_maintainBuffer b). same_link x e),
     b\<lparr>m_maintainBuffer := without_first (\<lambda>x. same_link x e) (m_maintainBuffer b)\<rparr>)"
  by (simp add: LinkEqual_def LinkEqual_scan_eq split: prod.split)
     (metis erase_first_fst erase_first_snd fst_conv snd_conv)

subsection \<open>The operations\<close>

lemma Enqueue_dup:
  assumes "\<exists>x\<in>set (m_maintainBuffer (Purge now b)). same_all x e"
  shows "Enqueue now e b = Inr (False, e, Purge now b)"
  using assms by (simp add: Enqueue_def Enqueue_scan_iff)

lemma Enqueue_room:
  assumes "\<not> (\<exists>x\<in>set (m_maintainBuffer (Purge now b)). same_all x e)"
    and "length (m_maintainBuffer (Purge now b)) < unat (m_maxLen b)"
  shows "Enqueue now e b =
           Inr (True, SetExpireTime now (m_maintainBufferTimeout b) e,
                (Purge now b)\<lparr>m_maintainBuffer :=
                   m_maintainBuffer (Purge now b) @ [SetExpireTime now (m_maintainBufferTimeout b) e]\<rparr>)"
  using assms by (simp add: Enqueue_def Enqueue_scan_iff Purge_fields Let_def)

lemma Enqueue_full:
  assumes "\<not> (\<exists>x\<in>set (m_maintainBuffer (Purge now b)). same_all x e)"
    and "unat (m_maxLen b) \<le> length (m_maintainBuffer (Purge now b))"
    and "m_maintainBuffer (Purge now b) \<noteq> []"
  shows "Enqueue now e b =
           Inr (True, SetExpireTime now (m_maintainBufferTimeout b) e,
                (Purge now b)\<lparr>m_maintainBuffer :=
                   tl (m_maintainBuffer (Purge now b)) @ [SetExpireTime now (m_maintainBufferTimeout b) e]\<rparr>)"
  using assms by (simp add: Enqueue_def Enqueue_scan_iff Purge_fields Let_def split: list.split)

lemma Enqueue_fault:
  assumes "m_maintainBuffer (Purge now b) = []" and "m_maxLen b = 0"
  shows "Enqueue now e b = Inl EraseAtEnd"
  using assms by (simp add: Enqueue_def Purge_fields Let_def)

lemma Enqueue_cases:
  obtains
    (dup) "\<exists>x\<in>set (m_maintainBuffer (Purge now b)). same_all x e"
      "Enqueue now e b = Inr (False, e, Purge now b)"
  | (room) "\<not> (\<exists>x\<in>set (m_maintainBuffer (Purge now b)). same_all x e)"
      "length (m_maintainBuffer (Purge now b)) < unat (m_maxLen b)"
      "Enqueue now e b =
           Inr (True, SetExpireTime now (m_maintainBufferTimeout b) e,
                (Purge now b)\<lparr>m_maintainBuffer :=
                   m_maintainBuffer (Purge now b) @ [SetExpireTime now (m_maintainBufferTimeout b) e]\<rparr>)"
  | (full) "\<not> (\<exists>x\<in>set (m_maintainBuffer (Purge now b)). same_all x e)"
      "unat (m_maxLen b) \<le> length (m_maintainBuffer (Purge now b))"
      "m_maintainBuffer (Purge now b) \<noteq> []"
      "Enqueue now e b =
           Inr (True, SetExpireTime now (m_maintainBufferTimeout b) e,
                (Purge now b)\<lparr>m_maintainBuffer :=
                   tl (m_maintainBuffer (Purge now b)) @ [SetExpireTime now (m_maintainBufferTimeout b) e]\<rparr>)"
  | (fault) "\<not> (\<exists>x\<in>set (m_maintainBuffer (Purge now b)). same_all x e)"
      "m_maintainBuffer (Purge now b) = []" "m_maxLen b = 0"
      "Enqueue now e b = Inl EraseAtEnd"
proof (cases "\<exists>x\<in>set (m_maintainBuffer (Purge now b)). same_all x e")
  case True
  then show ?thesis using Enqueue_dup dup by blast
next
  case nd: False
  show ?thesis
  proof (cases "length (m_maintainBuffer (Purge now b)) < unat (m_maxLen b)")
    case True
    then show ?thesis using nd Enqueue_room room by blast
  next
    case ge: False
    show ?thesis
    proof (cases "m_maintainBuffer (Purge now b) = []")
      case True
      with ge have "unat (m_maxLen b) = 0" by simp
      then have "m_maxLen b = 0" by (simp add: unat_eq_0)
      then show ?thesis using nd True Enqueue_fault fault by blast
    next
      case False
      then show ?thesis using nd ge Enqueue_full [of now b e] full by (simp add: not_less)
    qed
  qed
qed

lemma GetSize_eq:
  "GetSize now b = (of_nat (length (m_maintainBuffer (Purge now b))), Purge now b)"
  by (simp add: GetSize_def Let_def)

lemma Find_eq: "Find nextHop b = ((\<exists>x\<in>set (m_maintainBuffer b). m_nextHop x = nextHop), b)"
  by (simp add: Find_def Find_scan_iff)

lemma DropPacketWithNextHop_eq:
  "DropPacketWithNextHop now nextHop b =
     (Purge now b)\<lparr>m_maintainBuffer :=
        filter (\<lambda>x. m_nextHop x \<noteq> nextHop) (m_maintainBuffer (Purge now b))\<rparr>"
  by (simp add: DropPacketWithNextHop_def erase_remove_if_filter Let_def)

lemma Dequeue_eq:
  "Dequeue now nextHop entry b =
     (case find (\<lambda>x. m_nextHop x = nextHop) (m_maintainBuffer (Purge now b)) of
        None \<Rightarrow> (False, entry, Purge now b)
      | Some x \<Rightarrow> (True, x, (Purge now b)\<lparr>m_maintainBuffer :=
           without_first (\<lambda>x. m_nextHop x = nextHop) (m_maintainBuffer (Purge now b))\<rparr>))"
  by (simp add: Dequeue_def Dequeue_scan_eq Let_def split: option.split)

lemma Enqueue_fault_iff:
  "Enqueue now e b = Inl EraseAtEnd \<longleftrightarrow>
     m_maxLen b = 0 \<and> m_maintainBuffer (Purge now b) = []"
  by (rule Enqueue_cases [of now b e]) auto

lemma Enqueue_result_set:
  assumes "Enqueue now entry b = Inr (ok, e', b')"
  shows "set (m_maintainBuffer b') \<subseteq>
           (if ok then {e'} else {}) \<union> {x \<in> set (m_maintainBuffer b). \<not> IsExpired now x}"
proof (rule Enqueue_cases [of now b entry])
  assume "Enqueue now entry b = Inr (False, entry, Purge now b)"
  with assms show ?thesis by (auto simp add: Purge_buffer)
next
  assume "Enqueue now entry b =
           Inr (True, SetExpireTime now (m_maintainBufferTimeout b) entry,
                (Purge now b)\<lparr>m_maintainBuffer :=
                   m_maintainBuffer (Purge now b) @ [SetExpireTime now (m_maintainBufferTimeout b) entry]\<rparr>)"
  with assms show ?thesis by (auto simp add: Purge_buffer)
next
  assume "Enqueue now entry b =
           Inr (True, SetExpireTime now (m_maintainBufferTimeout b) entry,
                (Purge now b)\<lparr>m_maintainBuffer :=
                   tl (m_maintainBuffer (Purge now b)) @ [SetExpireTime now (m_maintainBufferTimeout b) entry]\<rparr>)"
  with assms have ok: "ok" and e': "e' = SetExpireTime now (m_maintainBufferTimeout b) entry"
    and b': "m_maintainBuffer b' = tl (m_maintainBuffer (Purge now b)) @ [e']"
    by auto
  have "set (tl (m_maintainBuffer (Purge now b))) \<subseteq> set (m_maintainBuffer (Purge now b))"
    by (cases "m_maintainBuffer (Purge now b)") auto
  then show ?thesis using ok b' by (auto simp add: Purge_buffer)
next
  assume "Enqueue now entry b = Inl EraseAtEnd"
  with assms show ?thesis by simp
qed

lemma Dequeue_buffer_set:
  "set (m_maintainBuffer (snd (snd (Dequeue now nextHop entry b)))) \<subseteq>
     {x \<in> set (m_maintainBuffer b). \<not> IsExpired now x}"
  using without_first_set [of "\<lambda>x. m_nextHop x = nextHop" "m_maintainBuffer (Purge now b)"]
  by (auto simp add: Dequeue_eq Purge_buffer split: option.splits)

lemma without_first_keeps: "x \<in> set xs \<Longrightarrow> \<not> P x \<Longrightarrow> x \<in> set (without_first P xs)"
proof -
  assume "x \<in> set xs" "\<not> P x"
  then have "x \<in> set (filter (\<lambda>x. \<not> P x) xs)" by simp
  then have "x \<in> set (filter (\<lambda>x. \<not> P x) (without_first P xs))"
    by (simp only: without_first_filter)
  then show ?thesis by simp
qed

lemma Purge_subseq: "subseq (m_maintainBuffer (Purge now b)) (m_maintainBuffer b)"
  by (simp add: Purge_buffer)

lemma tl_subseq: "subseq (tl xs) xs"
  by (cases xs) (auto intro: list_emb_Cons)

lemma Dequeue_subseq:
  "subseq (m_maintainBuffer (snd (snd (Dequeue now nextHop entry b)))) (m_maintainBuffer b)"
proof -
  let ?P = "m_maintainBuffer (Purge now b)"
  have "subseq (without_first (\<lambda>x. m_nextHop x = nextHop) ?P) (m_maintainBuffer b)"
    using without_first_subseq Purge_subseq by (rule subseq_order.trans)
  then show ?thesis
    by (simp add: Dequeue_eq Purge_subseq split: option.splits)
qed

lemma DropPacketWithNextHop_subseq:
  "subseq (m_maintainBuffer (DropPacketWithNextHop now nextHop b)) (m_maintainBuffer b)"
proof -
  have "subseq (filter (\<lambda>x. m_nextHop x \<noteq> nextHop) (m_maintainBuffer (Purge now b)))
          (m_maintainBuffer (Purge now b))"
    by simp
  then have "subseq (filter (\<lambda>x. m_nextHop x \<noteq> nextHop) (m_maintainBuffer (Purge now b)))
          (m_maintainBuffer b)"
    using Purge_subseq by (rule subseq_order.trans)
  then show ?thesis by (simp add: DropPacketWithNextHop_eq)
qed

lemma Enqueue_subseq:
  assumes "Enqueue now e b = Inr (ok, e', b')"
  shows "subseq (if ok then butlast (m_maintainBuffer b') else m_maintainBuffer b')
           (m_maintainBuffer b)"
proof (rule Enqueue_cases [of now b e])
  assume "Enqueue now e b = Inr (False, e, Purge now b)"
  with assms show ?thesis by (auto simp add: Purge_subseq)
next
  assume "Enqueue now e b =
           Inr (True, SetExpireTime now (m_maintainBufferTimeout b) e,
                (Purge now b)\<lparr>m_maintainBuffer :=
                   m_maintainBuffer (Purge now b) @ [SetExpireTime now (m_maintainBufferTimeout b) e]\<rparr>)"
  with assms show ?thesis by (auto simp add: Purge_subseq)
next
  assume "Enqueue now e b =
           Inr (True, SetExpireTime now (m_maintainBufferTimeout b) e,
                (Purge now b)\<lparr>m_maintainBuffer :=
                   tl (m_maintainBuffer (Purge now b)) @ [SetExpireTime now (m_maintainBufferTimeout b) e]\<rparr>)"
  with assms have ok: "ok" and b': "butlast (m_maintainBuffer b') = tl (m_maintainBuffer (Purge now b))"
    by auto
  have "subseq (tl (m_maintainBuffer (Purge now b))) (m_maintainBuffer b)"
    using tl_subseq Purge_subseq by (rule subseq_order.trans)
  then show ?thesis using ok b' by simp
next
  assume "Enqueue now e b = Inl EraseAtEnd"
  with assms show ?thesis by simp
qed

lemma Enqueue_rejected_iff:
  "(\<exists>e' b'. Enqueue now e b = Inr (False, e', b')) \<longleftrightarrow>
     (\<exists>x\<in>set (m_maintainBuffer b). \<not> IsExpired now x \<and> same_all x e)"
  by (rule Enqueue_cases [of now b e]) (auto simp add: Purge_buffer)

subsection \<open>A sequence of insertions\<close>

lemma distinct_drop_append: "distinct (xs @ ys) \<Longrightarrow> distinct (drop k xs @ ys)"
  by (auto simp add: distinct_drop dest: in_set_dropD)

lemma Enqueue_fresh:
  assumes cap: "m_maxLen b \<noteq> 0"
    and live: "\<forall>x\<in>set (m_maintainBuffer b). \<not> IsExpired now x"
    and fresh: "full_key e \<notin> full_key ` set (m_maintainBuffer b)"
    and len: "length (m_maintainBuffer b) \<le> unat (m_maxLen b)"
  shows "Enqueue now e b =
     Inr (True, SetExpireTime now (m_maintainBufferTimeout b) e,
          b\<lparr>m_maintainBuffer :=
              drop (Suc (length (m_maintainBuffer b)) - unat (m_maxLen b))
                (m_maintainBuffer b @ [SetExpireTime now (m_maintainBufferTimeout b) e])\<rparr>)"
proof -
  have p: "Purge now b = b" using live by (rule Purge_id)
  have nd: "\<not> (\<exists>x\<in>set (m_maintainBuffer (Purge now b)). same_all x e)"
    using fresh unfolding p same_all_key by (metis imageI)
  show ?thesis
  proof (cases "length (m_maintainBuffer b) < unat (m_maxLen b)")
    case True
    then have "Suc (length (m_maintainBuffer b)) - unat (m_maxLen b) = 0" by simp
    then show ?thesis using Enqueue_room [OF nd] True by (simp add: p)
  next
    case False
    with len have eq: "length (m_maintainBuffer b) = unat (m_maxLen b)" by simp
    from cap have "unat (m_maxLen b) \<noteq> 0" by (simp add: unat_eq_0)
    with eq obtain x xs where xs: "m_maintainBuffer b = x # xs"
      by (cases "m_maintainBuffer b") auto
    have "Suc (length (m_maintainBuffer b)) - unat (m_maxLen b) = Suc 0" using eq by simp
    then show ?thesis using Enqueue_full [OF nd] eq xs by (simp add: p)
  qed
qed

lemma Enqueue_seq_fifo:
  assumes "m_maxLen b \<noteq> 0"
    and "length (m_maintainBuffer b) \<le> unat (m_maxLen b)"
    and "\<forall>x\<in>set (m_maintainBuffer b). hi \<le> m_expire x"
    and "\<forall>(t, e)\<in>set tes. t \<le> hi \<and> hi \<le> t + m_maintainBufferTimeout b"
    and "distinct (map full_key (m_maintainBuffer b) @ map (full_key \<circ> snd) tes)"
  shows "Enqueue_seq tes b =
     Inr (b\<lparr>m_maintainBuffer :=
            drop (length (m_maintainBuffer b) + length tes - unat (m_maxLen b))
              (m_maintainBuffer b @
               map (\<lambda>(t, e). SetExpireTime t (m_maintainBufferTimeout b) e) tes)\<rparr>)"
  using assms
proof (induction tes arbitrary: b)
  case Nil
  then show ?case by simp
next
  case (Cons te tes)
  obtain t e where te: "te = (t, e)" by (cases te)
  let ?buf = "m_maintainBuffer b" and ?m = "unat (m_maxLen b)"
  define s where "s = SetExpireTime t (m_maintainBufferTimeout b) e"
  define B1 where "B1 = drop (Suc (length ?buf) - ?m) (?buf @ [s])"
  define b1 where "b1 = b\<lparr>m_maintainBuffer := B1\<rparr>"
  define R where "R = map (\<lambda>(t, e). SetExpireTime t (m_maintainBufferTimeout b) e) tes"
  have b1: "m_maintainBuffer b1 = B1" "m_maxLen b1 = m_maxLen b"
    "m_maintainBufferTimeout b1 = m_maintainBufferTimeout b"
    by (simp_all add: b1_def)
  from Cons.prems(4) te have t: "t \<le> hi" "hi \<le> t + m_maintainBufferTimeout b" by auto
  have live: "\<forall>x\<in>set ?buf. \<not> IsExpired t x"
    using Cons.prems(3) t(1) by (auto simp add: IsExpired_iff)
  have fresh: "full_key e \<notin> full_key ` set ?buf"
    using Cons.prems(5) te by auto
  have step: "Enqueue t e b = Inr (True, s, b1)"
    unfolding s_def b1_def B1_def
    using Cons.prems(1) live fresh Cons.prems(2) by (rule Enqueue_fresh)
  have m0: "?m \<noteq> 0" using Cons.prems(1) by (simp add: unat_eq_0)
  have B1: "B1 = drop (Suc (length ?buf) - ?m) ?buf @ [s]"
    using m0 by (simp add: B1_def)
  have key_s: "full_key s = full_key e" by (simp add: full_key_def SetExpireTime_def s_def)
  have exp_s: "hi \<le> m_expire s" using t(2) by (simp add: SetExpireTime_def s_def add.commute)
  have p1: "m_maxLen b1 \<noteq> 0" using Cons.prems(1) by (simp add: b1)
  have p2: "length (m_maintainBuffer b1) \<le> unat (m_maxLen b1)"
    using Cons.prems(2) m0 by (simp add: b1 B1)
  have p3: "\<forall>x\<in>set (m_maintainBuffer b1). hi \<le> m_expire x"
    using Cons.prems(3) exp_s by (auto simp add: b1 B1 dest: in_set_dropD)
  have p4: "\<forall>(t, e)\<in>set tes. t \<le> hi \<and> hi \<le> t + m_maintainBufferTimeout b1"
    using Cons.prems(4) by (simp add: b1)
  have "distinct (map full_key (drop (Suc (length ?buf) - ?m) ?buf) @
          full_key e # map (full_key \<circ> snd) tes)"
  proof -
    have d: "distinct (map full_key ?buf @ full_key e # map (full_key \<circ> snd) tes)"
      using Cons.prems(5) te by (simp add: comp_def)
    then have "distinct (drop (Suc (length ?buf) - ?m) (map full_key ?buf) @
        full_key e # map (full_key \<circ> snd) tes)"
      by (rule distinct_drop_append)
    then show ?thesis by (simp only: drop_map)
  qed
  then have p5: "distinct (map full_key (m_maintainBuffer b1) @ map (full_key \<circ> snd) tes)"
    unfolding b1 B1 by (simp add: key_s)
  have ih: "Enqueue_seq tes b1 =
     Inr (b1\<lparr>m_maintainBuffer := drop (length B1 + length tes - ?m) (B1 @ R)\<rparr>)"
    using Cons.IH [OF p1 p2 p3 p4 p5] unfolding b1 R_def .
  have lists: "drop (length B1 + length tes - ?m) (B1 @ R) =
        drop (length ?buf + length (te # tes) - ?m) (?buf @ s # R)"
  proof (cases "length ?buf < ?m")
    case True
    then show ?thesis by (simp add: B1_def)
  next
    case False
    with Cons.prems(2) have eq: "length ?buf = ?m" by simp
    with m0 obtain x xs where xs: "?buf = x # xs" by (cases ?buf) auto
    show ?thesis using eq by (simp add: B1_def xs)
  qed
  have "Enqueue_seq (te # tes) b = Enqueue_seq tes b1"
    by (simp add: te step)
  also have "\<dots> = Inr (b1\<lparr>m_maintainBuffer := drop (length B1 + length tes - ?m) (B1 @ R)\<rparr>)"
    by (rule ih)
  also have "b1\<lparr>m_maintainBuffer := drop (length B1 + length tes - ?m) (B1 @ R)\<rparr> =
      b\<lparr>m_maintainBuffer := drop (length ?buf + length (te # tes) - ?m) (?buf @ s # R)\<rparr>"
    unfolding lists by (simp add: b1_def)
  finally show ?case by (simp add: te s_def R_def)
qed

subsection \<open>The front entry\<close>

lemma Enqueue_purged: "Enqueue now e (Purge now b) = Enqueue now e b"
  by (simp add: Enqueue_def Purge_idem)

lemma Enqueue_front:
  assumes cap: "m_maxLen b \<noteq> 0"
    and buf: "m_maintainBuffer b = p # xs"
    and len: "length (p # xs) = unat (m_maxLen b)"
    and live: "\<forall>y\<in>set xs. \<not> IsExpired now y"
    and nd: "\<not> (\<exists>y\<in>set (m_maintainBuffer b). \<not> IsExpired now y \<and> same_all y e)"
  shows "Enqueue now e b =
     Inr (True, SetExpireTime now (m_maintainBufferTimeout b) e,
          b\<lparr>m_maintainBuffer := xs @ [SetExpireTime now (m_maintainBufferTimeout b) e]\<rparr>)"
proof -
  let ?s = "SetExpireTime now (m_maintainBufferTimeout b) e"
  have nd': "\<not> (\<exists>y\<in>set (m_maintainBuffer (Purge now b)). same_all y e)"
    using nd by (simp add: Purge_buffer)
  show ?thesis
  proof (cases "IsExpired now p")
    case True
    then have P: "Purge now b = b\<lparr>m_maintainBuffer := xs\<rparr>"
      using live by (simp add: Purge_eq buf)
    have "length (m_maintainBuffer (Purge now b)) < unat (m_maxLen b)"
      using len by (simp add: P)
    from Enqueue_room [OF nd' this] show ?thesis by (simp add: P)
  next
    case False
    then have P: "Purge now b = b" using live by (simp add: Purge_eq buf)
    have "unat (m_maxLen b) \<le> length (m_maintainBuffer (Purge now b))"
      using len by (simp add: P buf)
    moreover have "m_maintainBuffer (Purge now b) \<noteq> []" by (simp add: P buf)
    ultimately show ?thesis using Enqueue_full [OF nd'] by (simp add: P buf)
  qed
qed

lemma Enqueue_seq_front:
  assumes "m_maxLen b \<noteq> 0"
    and "m_maintainBuffer b = p # xs"
    and "length (p # xs) \<le> unat (m_maxLen b)"
    and "unat (m_maxLen b) \<le> length xs + length tes"
    and "\<forall>x\<in>set xs. hi \<le> m_expire x"
    and "\<forall>(t, e)\<in>set tes. t \<le> hi \<and> hi \<le> t + m_maintainBufferTimeout b"
    and "distinct (map full_key (p # xs) @ map (full_key \<circ> snd) tes)"
  shows "Enqueue_seq tes b =
     Inr (b\<lparr>m_maintainBuffer :=
            drop (length xs + length tes - unat (m_maxLen b))
              (xs @ map (\<lambda>(t, e). SetExpireTime t (m_maintainBufferTimeout b) e) tes)\<rparr>)"
  using assms
proof (induction tes arbitrary: b xs)
  case Nil
  then show ?case by simp
next
  case (Cons te tes)
  obtain t e where te: "te = (t, e)" by (cases te)
  let ?m = "unat (m_maxLen b)"
  define s where "s = SetExpireTime t (m_maintainBufferTimeout b) e"
  define R where "R = map (\<lambda>(t, e). SetExpireTime t (m_maintainBufferTimeout b) e) tes"
  define b1 where "b1 = b\<lparr>m_maintainBuffer := xs @ [s]\<rparr>"
  define b2 where "b2 = b\<lparr>m_maintainBuffer := p # xs @ [s]\<rparr>"
  have b1: "m_maintainBuffer b1 = xs @ [s]" "m_maxLen b1 = m_maxLen b"
    "m_maintainBufferTimeout b1 = m_maintainBufferTimeout b"
    by (simp_all add: b1_def)
  have b2: "m_maintainBuffer b2 = p # (xs @ [s])" "m_maxLen b2 = m_maxLen b"
    "m_maintainBufferTimeout b2 = m_maintainBufferTimeout b"
    by (simp_all add: b2_def)
  have m0: "?m \<noteq> 0" using Cons.prems(1) by (simp add: unat_eq_0)
  from Cons.prems(6) te have t: "t \<le> hi" "hi \<le> t + m_maintainBufferTimeout b" by auto
  have live: "\<forall>x\<in>set xs. \<not> IsExpired t x"
    using Cons.prems(5) t(1) by (auto simp add: IsExpired_iff)
  have d: "distinct (full_key p # map full_key xs @ full_key e # map (full_key \<circ> snd) tes)"
    using Cons.prems(7) te by (simp add: comp_def)
  have key_s: "full_key s = full_key e" by (simp add: full_key_def SetExpireTime_def s_def)
  have exp_s: "hi \<le> m_expire s" using t(2) by (simp add: SetExpireTime_def s_def add.commute)
  have d1: "distinct (map full_key (m_maintainBuffer b1) @ map (full_key \<circ> snd) tes)"
    unfolding b1 using d by (simp add: key_s)
  have d2: "distinct (map full_key (p # (xs @ [s])) @ map (full_key \<circ> snd) tes)"
    using d by (simp add: key_s)
  have live1: "\<forall>x\<in>set (m_maintainBuffer b1). hi \<le> m_expire x"
    using Cons.prems(5) exp_s by (simp add: b1)
  have times1: "\<forall>(t, e)\<in>set tes. t \<le> hi \<and> hi \<le> t + m_maintainBufferTimeout b1"
    using Cons.prems(6) by (simp add: b1)
  have fifo1: "Enqueue_seq tes b1 =
      Inr (b\<lparr>m_maintainBuffer := drop (length xs + length (te # tes) - ?m) (xs @ s # R)\<rparr>)"
  proof -
    have "length (m_maintainBuffer b1) \<le> unat (m_maxLen b1)"
      using Cons.prems(3) by (simp add: b1)
    from Enqueue_seq_fifo [OF _ this live1 times1 d1] Cons.prems(1)
    have "Enqueue_seq tes b1 =
      Inr (b1\<lparr>m_maintainBuffer := drop (length (xs @ [s]) + length tes - ?m) ((xs @ [s]) @ R)\<rparr>)"
      unfolding b1 R_def by simp
    then show ?thesis by (simp add: b1_def)
  qed
  have "Enqueue_seq (te # tes) b =
      Inr (b\<lparr>m_maintainBuffer := drop (length xs + length (te # tes) - ?m) (xs @ s # R)\<rparr>)"
  proof (cases "IsExpired t p")
    case True
    then have P: "Purge t b = b\<lparr>m_maintainBuffer := xs\<rparr>"
      using live by (simp add: Purge_eq Cons.prems(2))
    have "Enqueue t e (Purge t b) = Inr (True, s, b1)"
    proof -
      have "full_key e \<notin> full_key ` set xs" using d by auto
      moreover have "length xs \<le> ?m" using Cons.prems(3) by simp
      moreover have "Suc (length xs) - ?m = 0" using Cons.prems(3) by simp
      ultimately show ?thesis
        using Enqueue_fresh [of "b\<lparr>m_maintainBuffer := xs\<rparr>" t e] Cons.prems(1) live
        by (simp add: P s_def b1_def)
    qed
    then have "Enqueue t e b = Inr (True, s, b1)" by (simp only: Enqueue_purged)
    then have "Enqueue_seq (te # tes) b = Enqueue_seq tes b1" by (simp add: te)
    then show ?thesis by (simp only: fifo1)
  next
    case False
    then have live': "\<forall>x\<in>set (m_maintainBuffer b). \<not> IsExpired t x"
      using live by (simp add: Cons.prems(2))
    have fresh: "full_key e \<notin> full_key ` set (m_maintainBuffer b)"
      using d by (auto simp add: Cons.prems(2))
    have len: "length (m_maintainBuffer b) \<le> ?m" using Cons.prems(3) by (simp add: Cons.prems(2))
    note step = Enqueue_fresh [OF Cons.prems(1) live' fresh len]
    show ?thesis
    proof (cases "length (p # xs) < ?m")
      case True
      then have "Enqueue t e b = Inr (True, s, b2)"
        using step by (simp add: Cons.prems(2) s_def b2_def)
      then have "Enqueue_seq (te # tes) b = Enqueue_seq tes b2" by (simp add: te)
      also have "\<dots> = Inr (b2\<lparr>m_maintainBuffer :=
            drop (length (xs @ [s]) + length tes - unat (m_maxLen b2))
              ((xs @ [s]) @ map (\<lambda>(t, e). SetExpireTime t (m_maintainBufferTimeout b2) e) tes)\<rparr>)"
      proof (rule Cons.IH)
        show "m_maxLen b2 \<noteq> 0" using Cons.prems(1) by (simp add: b2)
        show "m_maintainBuffer b2 = p # (xs @ [s])" by (simp add: b2)
        show "length (p # (xs @ [s])) \<le> unat (m_maxLen b2)" using True by (simp add: b2)
        show "unat (m_maxLen b2) \<le> length (xs @ [s]) + length tes"
          using Cons.prems(4) by (simp add: b2)
        show "\<forall>x\<in>set (xs @ [s]). hi \<le> m_expire x" using Cons.prems(5) exp_s by simp
        show "\<forall>(t, e)\<in>set tes. t \<le> hi \<and> hi \<le> t + m_maintainBufferTimeout b2"
          using Cons.prems(6) by (simp add: b2)
        show "distinct (map full_key (p # (xs @ [s])) @ map (full_key \<circ> snd) tes)"
          by (rule d2)
      qed
      also have "\<dots> = Inr (b\<lparr>m_maintainBuffer :=
            drop (length xs + length (te # tes) - ?m) (xs @ s # R)\<rparr>)"
        by (simp add: b2_def R_def)
      finally show ?thesis .
    next
      case False
      with Cons.prems(3) have eq: "length (p # xs) = ?m" by simp
      then have "Suc (length (m_maintainBuffer b)) - ?m = Suc 0"
        by (simp add: Cons.prems(2))
      then have "Enqueue t e b = Inr (True, s, b1)"
        using step by (simp add: Cons.prems(2) s_def b1_def)
      then have "Enqueue_seq (te # tes) b = Enqueue_seq tes b1" by (simp add: te)
      then show ?thesis by (simp only: fifo1)
    qed
  qed
  then show ?case by (simp add: te s_def R_def)
qed

section \<open>The claims\<close>

text \<open>
  C1. For every buffer and every probe entry, \<open>AllEqual\<close> (matchExact) succeeds exactly
  when a buffered entry agrees with the probe on ourAddress, nextHop, source,
  destination, ackId and segsLeft; \<open>NetworkEqual\<close> (matchNetworkAck) exactly when one
  agrees on the five fields other than segsLeft; \<open>PromiscEqual\<close> (matchPromiscuous)
  exactly when one agrees on source, destination, segsLeft and ackId; \<open>LinkEqual\<close>
  (matchLinkLayer) exactly when one agrees on source, destination, ourAddress and
  nextHop. Each call leaves the buffer without its earliest qualifying entry, and
  otherwise as it was: at most one entry is removed.
\<close>

theorem C1_reconciliation_predicates:
  "AllEqual e b =
     ((\<exists>x\<in>set (m_maintainBuffer b). same_all x e),
      b\<lparr>m_maintainBuffer := without_first (\<lambda>x. same_all x e) (m_maintainBuffer b)\<rparr>) \<and>
   NetworkEqual e b =
     ((\<exists>x\<in>set (m_maintainBuffer b). same_network x e),
      b\<lparr>m_maintainBuffer := without_first (\<lambda>x. same_network x e) (m_maintainBuffer b)\<rparr>) \<and>
   PromiscEqual e b =
     ((\<exists>x\<in>set (m_maintainBuffer b). same_promisc x e),
      b\<lparr>m_maintainBuffer := without_first (\<lambda>x. same_promisc x e) (m_maintainBuffer b)\<rparr>) \<and>
   LinkEqual e b =
     ((\<exists>x\<in>set (m_maintainBuffer b). same_link x e),
      b\<lparr>m_maintainBuffer := without_first (\<lambda>x. same_link x e) (m_maintainBuffer b)\<rparr>)"
  using AllEqual_eq NetworkEqual_eq PromiscEqual_eq LinkEqual_eq by blast

text \<open>
  In the buffer \<open>[ex_a, ex_c, ex_b]\<close> the probe differs from \<open>ex_a\<close> in segsLeft only and
  from \<open>ex_c\<close> in ourAddress and nextHop only; \<open>ex_link\<close> differs from \<open>ex_a\<close> in ackId
  and segsLeft.
\<close>

theorem C1_reconciliation_predicates_witness:
  "AllEqual ex_probe (ex_buffer 3 [ex_a, ex_c, ex_b]) = (True, ex_buffer 3 [ex_a, ex_c]) \<and>
   NetworkEqual ex_probe (ex_buffer 3 [ex_a, ex_c, ex_b]) = (True, ex_buffer 3 [ex_c, ex_b]) \<and>
   PromiscEqual ex_probe (ex_buffer 3 [ex_a, ex_c, ex_b]) = (True, ex_buffer 3 [ex_a, ex_b]) \<and>
   LinkEqual ex_link (ex_buffer 3 [ex_a, ex_c, ex_b]) = (True, ex_buffer 3 [ex_c, ex_b]) \<and>
   LinkEqual ex_link (ex_buffer 3 [ex_c]) = (False, ex_buffer 3 [ex_c])"
  using C1_reconciliation_predicates [of ex_probe "ex_buffer 3 [ex_a, ex_c, ex_b]"]
    C1_reconciliation_predicates [of ex_link "ex_buffer 3 [ex_a, ex_c, ex_b]"]
    C1_reconciliation_predicates [of ex_link "ex_buffer 3 [ex_c]"]
  by (simp add: ex_defs without_first_def same_all_def same_network_def same_promisc_def
      same_link_def)

text \<open>
  C2, as stated, fails. With capacity 0 and an empty buffer the test
  \<open>m_maintainBuffer.size () >= m_maxLen\<close> holds and \<open>Enqueue\<close> erases at \<open>begin ()\<close>
  of an empty vector: there is no entry to evict, and no buffer of at most 0 entries
  that holds the accepted entry. With capacity 2 and timeout 50, the three entries
  \<open>ex_a\<close>, \<open>ex_b\<close>, \<open>ex_c\<close> have distinct full-tuple keys; enqueued at clock
  values 0, 0 and 100 they leave one entry, not two, since the purge at the start of
  the third call removes the first two. And with capacity 2 the buffer
  \<open>[ex_a, ex_c]\<close> holds two entries, but at clock value 10 an accepted \<open>Enqueue\<close>
  keeps the front entry \<open>ex_a\<close>: the purge has removed the expired \<open>ex_c\<close> and made
  room.
\<close>

theorem C2_capacity_counterexample:
  "Enqueue 0 ex_a (ex_buffer 0 []) = Inl EraseAtEnd \<and>
   distinct (map full_key [ex_a, ex_b, ex_c]) \<and>
   Enqueue_seq [(0, ex_a), (0, ex_b), (100, ex_c)] (ex_buffer 2 []) =
     Inr (ex_buffer 2 [ex_c\<lparr>m_expire := 150\<rparr>]) \<and>
   length (m_maintainBuffer (ex_buffer 2 [ex_c\<lparr>m_expire := 150\<rparr>])) \<noteq> unat (2 :: 32 word) \<and>
   length (m_maintainBuffer (ex_buffer 2 [ex_a, ex_c])) = unat (2 :: 32 word) \<and>
   Enqueue 10 ex_link (ex_buffer 2 [ex_a, ex_c]) =
     Inr (True, ex_link\<lparr>m_expire := 60\<rparr>, ex_buffer 2 [ex_a, ex_link\<lparr>m_expire := 60\<rparr>])"
  by (simp add: ex_defs full_key_def Enqueue_def Purge_def IsExpired_iff SetExpireTime_def Let_def)

text \<open>
  C2, amended. Let the capacity be at least 1 and let the buffer hold at most
  \<open>m_maxLen\<close> entries. Then every operation returns and leaves at most \<open>m_maxLen\<close>
  entries in the buffer. When \<open>Enqueue\<close> accepts an entry while the buffer holds
  \<open>m_maxLen\<close> entries of which none behind the front one is expired, it removes
  exactly one entry, the front one, whether that entry is expired or not, and appends
  the new entry. In general the buffer an accepted \<open>Enqueue\<close> leaves is the purged
  buffer, without its front entry when it still holds \<open>m_maxLen\<close> entries, followed
  by the new entry. So enqueueing \<open>m_maxLen + 1\<close> entries with pairwise distinct
  full-tuple keys into the empty buffer, the entries after the first at clock values
  that lie within one timeout of each other (between \<open>lo\<close> and \<open>lo + timeout\<close>, so
  that none of them expires before the last insertion; the first entry may expire or
  not), leaves exactly the last \<open>m_maxLen\<close> of them, in insertion order: the
  first-inserted entry is the one that is gone.
\<close>

theorem C2_capacity:
  assumes "m_maxLen b \<noteq> 0" and "length (m_maintainBuffer b) \<le> unat (m_maxLen b)"
  shows "(\<exists>ok e' b'. Enqueue now e b = Inr (ok, e', b') \<and> m_maxLen b' = m_maxLen b \<and>
            length (m_maintainBuffer b') \<le> unat (m_maxLen b)) \<and>
         length (m_maintainBuffer (snd (GetSize now b))) \<le> unat (m_maxLen b) \<and>
         length (m_maintainBuffer (DropPacketWithNextHop now nextHop b)) \<le> unat (m_maxLen b) \<and>
         length (m_maintainBuffer (snd (snd (Dequeue now nextHop e b)))) \<le> unat (m_maxLen b) \<and>
         length (m_maintainBuffer (snd (Find nextHop b))) \<le> unat (m_maxLen b) \<and>
         length (m_maintainBuffer (snd (AllEqual e b))) \<le> unat (m_maxLen b) \<and>
         length (m_maintainBuffer (snd (NetworkEqual e b))) \<le> unat (m_maxLen b) \<and>
         length (m_maintainBuffer (snd (PromiscEqual e b))) \<le> unat (m_maxLen b) \<and>
         length (m_maintainBuffer (snd (LinkEqual e b))) \<le> unat (m_maxLen b) \<and>
         length (m_maintainBuffer (Purge now b)) \<le> unat (m_maxLen b) \<and>
         (\<not> (\<exists>x\<in>set (m_maintainBuffer (Purge now b)). same_all x e) \<and>
          length (m_maintainBuffer (Purge now b)) = unat (m_maxLen b) \<longrightarrow>
            Enqueue now e b =
              Inr (True, SetExpireTime now (m_maintainBufferTimeout b) e,
                   (Purge now b)\<lparr>m_maintainBuffer :=
                      tl (m_maintainBuffer (Purge now b)) @
                      [SetExpireTime now (m_maintainBufferTimeout b) e]\<rparr>)) \<and>
         (length (m_maintainBuffer b) = unat (m_maxLen b) \<and>
          (\<forall>y\<in>set (tl (m_maintainBuffer b)). \<not> IsExpired now y) \<and>
          \<not> (\<exists>y\<in>set (m_maintainBuffer b). \<not> IsExpired now y \<and> same_all y e) \<longrightarrow>
            Enqueue now e b =
              Inr (True, SetExpireTime now (m_maintainBufferTimeout b) e,
                   b\<lparr>m_maintainBuffer :=
                      tl (m_maintainBuffer b) @
                      [SetExpireTime now (m_maintainBufferTimeout b) e]\<rparr>)) \<and>
         (\<not> (\<exists>x\<in>set (m_maintainBuffer (Purge now b)). same_all x e) \<longrightarrow>
            Enqueue now e b =
              Inr (True, SetExpireTime now (m_maintainBufferTimeout b) e,
                   (Purge now b)\<lparr>m_maintainBuffer :=
                      drop (Suc (length (m_maintainBuffer (Purge now b))) - unat (m_maxLen b))
                        (m_maintainBuffer (Purge now b) @
                         [SetExpireTime now (m_maintainBufferTimeout b) e])\<rparr>)) \<and>
         (length tes = unat (m_maxLen b) + 1 \<and> distinct (map (full_key \<circ> snd) tes) \<and>
          (\<forall>(t, x)\<in>set (tl tes). lo \<le> t \<and> t \<le> lo + m_maintainBufferTimeout b) \<longrightarrow>
            Enqueue_seq tes (b\<lparr>m_maintainBuffer := []\<rparr>) =
              Inr (b\<lparr>m_maintainBuffer :=
                     map (\<lambda>(t, x). SetExpireTime t (m_maintainBufferTimeout b) x) (tl tes)\<rparr>))"
proof -
  let ?m = "unat (m_maxLen b)"
  have m0: "?m \<noteq> 0" using assms(1) by (simp add: unat_eq_0)
  have sub: "length xs \<le> ?m" if "subseq xs (m_maintainBuffer b)" for xs
    using list_emb_length [OF that] assms(2) by simp
  have purge: "length (m_maintainBuffer (Purge now b)) \<le> ?m"
    using Purge_subseq by (rule sub)
  have enq: "\<exists>ok e' b'. Enqueue now e b = Inr (ok, e', b') \<and> m_maxLen b' = m_maxLen b \<and>
            length (m_maintainBuffer b') \<le> ?m"
  proof (rule Enqueue_cases [of now b e])
    assume "Enqueue now e b = Inr (False, e, Purge now b)"
    then show ?thesis using purge by (auto simp add: Purge_fields)
  next
    assume "length (m_maintainBuffer (Purge now b)) < unat (m_maxLen b)"
      and "Enqueue now e b =
           Inr (True, SetExpireTime now (m_maintainBufferTimeout b) e,
                (Purge now b)\<lparr>m_maintainBuffer :=
                   m_maintainBuffer (Purge now b) @ [SetExpireTime now (m_maintainBufferTimeout b) e]\<rparr>)"
    then show ?thesis by (auto simp add: Purge_fields)
  next
    assume "m_maintainBuffer (Purge now b) \<noteq> []"
      and "Enqueue now e b =
           Inr (True, SetExpireTime now (m_maintainBufferTimeout b) e,
                (Purge now b)\<lparr>m_maintainBuffer :=
                   tl (m_maintainBuffer (Purge now b)) @ [SetExpireTime now (m_maintainBufferTimeout b) e]\<rparr>)"
    then show ?thesis using purge by (auto simp add: Purge_fields)
  next
    assume "m_maxLen b = 0"
    with assms(1) show ?thesis by simp
  qed
  have full: "Enqueue now e b =
              Inr (True, SetExpireTime now (m_maintainBufferTimeout b) e,
                   (Purge now b)\<lparr>m_maintainBuffer :=
                      tl (m_maintainBuffer (Purge now b)) @
                      [SetExpireTime now (m_maintainBufferTimeout b) e]\<rparr>)"
    if nd: "\<not> (\<exists>x\<in>set (m_maintainBuffer (Purge now b)). same_all x e)"
      and eq: "length (m_maintainBuffer (Purge now b)) = ?m"
  proof -
    from eq m0 have "m_maintainBuffer (Purge now b) \<noteq> []" by auto
    with nd eq show ?thesis by (intro Enqueue_full) simp_all
  qed
  have front: "Enqueue now e b =
              Inr (True, SetExpireTime now (m_maintainBufferTimeout b) e,
                   b\<lparr>m_maintainBuffer :=
                      tl (m_maintainBuffer b) @
                      [SetExpireTime now (m_maintainBufferTimeout b) e]\<rparr>)"
    if eq: "length (m_maintainBuffer b) = ?m"
      and live: "\<forall>y\<in>set (tl (m_maintainBuffer b)). \<not> IsExpired now y"
      and nd: "\<not> (\<exists>y\<in>set (m_maintainBuffer b). \<not> IsExpired now y \<and> same_all y e)"
  proof -
    from eq m0 obtain p xs where buf: "m_maintainBuffer b = p # xs"
      by (cases "m_maintainBuffer b") auto
    have "Enqueue now e b =
        Inr (True, SetExpireTime now (m_maintainBufferTimeout b) e,
             b\<lparr>m_maintainBuffer := xs @ [SetExpireTime now (m_maintainBufferTimeout b) e]\<rparr>)"
      using assms(1) buf _ _ nd
    proof (rule Enqueue_front)
      show "length (p # xs) = unat (m_maxLen b)" using eq by (simp add: buf)
      show "\<forall>y\<in>set xs. \<not> IsExpired now y" using live by (simp add: buf)
    qed
    then show ?thesis by (simp add: buf)
  qed
  have general: "Enqueue now e b =
              Inr (True, SetExpireTime now (m_maintainBufferTimeout b) e,
                   (Purge now b)\<lparr>m_maintainBuffer :=
                      drop (Suc (length (m_maintainBuffer (Purge now b))) - ?m)
                        (m_maintainBuffer (Purge now b) @
                         [SetExpireTime now (m_maintainBufferTimeout b) e])\<rparr>)"
    if nd: "\<not> (\<exists>x\<in>set (m_maintainBuffer (Purge now b)). same_all x e)"
  proof -
    have "Enqueue now e (Purge now b) =
        Inr (True, SetExpireTime now (m_maintainBufferTimeout (Purge now b)) e,
             (Purge now b)\<lparr>m_maintainBuffer :=
                drop (Suc (length (m_maintainBuffer (Purge now b))) - unat (m_maxLen (Purge now b)))
                  (m_maintainBuffer (Purge now b) @
                   [SetExpireTime now (m_maintainBufferTimeout (Purge now b)) e])\<rparr>)"
    proof (rule Enqueue_fresh)
      show "m_maxLen (Purge now b) \<noteq> 0" using assms(1) by (simp add: Purge_fields)
      show "\<forall>x\<in>set (m_maintainBuffer (Purge now b)). \<not> IsExpired now x"
        by (simp add: Purge_buffer)
      show "full_key e \<notin> full_key ` set (m_maintainBuffer (Purge now b))"
        using nd by (auto simp add: same_all_key)
      show "length (m_maintainBuffer (Purge now b)) \<le> unat (m_maxLen (Purge now b))"
        using purge by (simp add: Purge_fields)
    qed
    then show ?thesis by (simp only: Enqueue_purged Purge_fields)
  qed
  have seq: "Enqueue_seq tes (b\<lparr>m_maintainBuffer := []\<rparr>) =
              Inr (b\<lparr>m_maintainBuffer :=
                     map (\<lambda>(t, x). SetExpireTime t (m_maintainBufferTimeout b) x) (tl tes)\<rparr>)"
    if len: "length tes = ?m + 1" and dist: "distinct (map (full_key \<circ> snd) tes)"
      and times: "\<forall>(t, x)\<in>set (tl tes). lo \<le> t \<and> t \<le> lo + m_maintainBufferTimeout b"
  proof -
    from len obtain t0 e0 rest where tes: "tes = (t0, e0) # rest"
      by (cases tes) auto
    let ?b0 = "b\<lparr>m_maintainBuffer := []\<rparr>"
    let ?hi = "lo + m_maintainBufferTimeout b"
    define s0 where "s0 = SetExpireTime t0 (m_maintainBufferTimeout b) e0"
    define b1 where "b1 = b\<lparr>m_maintainBuffer := [s0]\<rparr>"
    have b1: "m_maintainBuffer b1 = [s0]" "m_maxLen b1 = m_maxLen b"
      "m_maintainBufferTimeout b1 = m_maintainBufferTimeout b"
      by (simp_all add: b1_def)
    have key0: "full_key s0 = full_key e0" by (simp add: full_key_def SetExpireTime_def s0_def)
    have "Suc 0 - ?m = 0" using m0 by simp
    then have first: "Enqueue t0 e0 ?b0 = Inr (True, s0, b1)"
      using Enqueue_fresh [of ?b0 t0 e0] assms(1) by (simp add: s0_def b1_def)
    have "Enqueue_seq rest b1 =
      Inr (b1\<lparr>m_maintainBuffer :=
            drop (length ([] :: DsrMaintainBuffEntry list) + length rest - unat (m_maxLen b1))
              ([] @ map (\<lambda>(t, e). SetExpireTime t (m_maintainBufferTimeout b1) e) rest)\<rparr>)"
    proof (rule Enqueue_seq_front [where hi = ?hi and p = s0])
      show "m_maxLen b1 \<noteq> 0" using assms(1) by (simp add: b1)
      show "m_maintainBuffer b1 = [s0]" by (simp add: b1)
      show "length [s0] \<le> unat (m_maxLen b1)" using m0 by (simp add: b1)
      show "unat (m_maxLen b1) \<le> length ([] :: DsrMaintainBuffEntry list) + length rest"
        using len by (simp add: b1 tes)
      show "\<forall>x\<in>set ([] :: DsrMaintainBuffEntry list). ?hi \<le> m_expire x" by simp
      show "\<forall>(t, e)\<in>set rest. t \<le> ?hi \<and> ?hi \<le> t + m_maintainBufferTimeout b1"
        using times by (auto simp add: tes b1)
      show "distinct (map full_key [s0] @ map (full_key \<circ> snd) rest)"
        using dist by (simp add: tes key0 comp_def)
    qed
    then have "Enqueue_seq rest b1 =
      Inr (b\<lparr>m_maintainBuffer :=
            map (\<lambda>(t, e). SetExpireTime t (m_maintainBufferTimeout b) e) rest\<rparr>)"
      using len by (simp add: b1_def tes)
    then show ?thesis using first by (simp add: tes)
  qed
  show ?thesis
    using enq purge full front general seq
    by (simp add: GetSize_eq Find_eq assms(2) sub Dequeue_subseq DropPacketWithNextHop_subseq
        AllEqual_eq NetworkEqual_eq PromiscEqual_eq LinkEqual_eq without_first_subseq)
qed

text \<open>
  With capacity 2 and timeout 50: enqueueing \<open>ex_link\<close> at clock value 10 into the
  full buffer \<open>[ex_a, ex_b]\<close> removes the live front entry \<open>ex_a\<close>, and into the full
  buffer \<open>[ex_c, ex_a]\<close> the expired front entry \<open>ex_c\<close>; enqueueing \<open>ex_a\<close>,
  \<open>ex_b\<close>, \<open>ex_c\<close> into the empty buffer at clock values 0, 10 and 50 (nothing
  expires) or 0, 10 and 55 (the first entry has expired at the last insertion) leaves
  \<open>ex_b\<close> and \<open>ex_c\<close>.
\<close>

theorem C2_capacity_witness:
  "m_maxLen (ex_buffer 2 [ex_a, ex_b]) \<noteq> 0 \<and>
   length (m_maintainBuffer (ex_buffer 2 [ex_a, ex_b])) \<le> unat (m_maxLen (ex_buffer 2 [ex_a, ex_b])) \<and>
   length (m_maintainBuffer (Purge 10 (ex_buffer 2 [ex_a, ex_b]))) = unat (m_maxLen (ex_buffer 2 [ex_a, ex_b])) \<and>
   \<not> same_all ex_a ex_link \<and> \<not> same_all ex_b ex_link \<and>
   \<not> IsExpired 10 ex_a \<and> \<not> IsExpired 10 ex_b \<and>
   Enqueue 10 ex_link (ex_buffer 2 [ex_a, ex_b]) =
     Inr (True, ex_link\<lparr>m_expire := 60\<rparr>, ex_buffer 2 [ex_b, ex_link\<lparr>m_expire := 60\<rparr>]) \<and>
   length (m_maintainBuffer (ex_buffer 2 [ex_c, ex_a])) = unat (m_maxLen (ex_buffer 2 [ex_c, ex_a])) \<and>
   IsExpired 10 ex_c \<and>
   Enqueue 10 ex_link (ex_buffer 2 [ex_c, ex_a]) =
     Inr (True, ex_link\<lparr>m_expire := 60\<rparr>, ex_buffer 2 [ex_a, ex_link\<lparr>m_expire := 60\<rparr>]) \<and>
   length [(0 :: int, ex_a), (10, ex_b), (55, ex_c)] = unat (m_maxLen (ex_buffer 2 [ex_a, ex_b])) + 1 \<and>
   distinct (map (full_key \<circ> snd) [(0 :: int, ex_a), (10, ex_b), (55, ex_c)]) \<and>
   Enqueue_seq [(0, ex_a), (10, ex_b), (55, ex_c)] (ex_buffer 2 []) =
     Inr (ex_buffer 2 [ex_b\<lparr>m_expire := 60\<rparr>, ex_c\<lparr>m_expire := 105\<rparr>]) \<and>
   Enqueue_seq [(0, ex_a), (10, ex_b), (50, ex_c)] (ex_buffer 2 []) =
     Inr (ex_buffer 2 [ex_b\<lparr>m_expire := 60\<rparr>, ex_c\<lparr>m_expire := 100\<rparr>])"
  using C2_capacity [of "ex_buffer 2 [ex_a, ex_b]" 10 ex_link 2
      "[(0, ex_a), (10, ex_b), (55, ex_c)]" 10]
    C2_capacity [of "ex_buffer 2 [ex_c, ex_a]" 10 ex_link 2
      "[(0, ex_a), (10, ex_b), (50, ex_c)]" 0]
  by (simp add: ex_defs same_all_def full_key_def Enqueue_def Purge_def IsExpired_iff
      SetExpireTime_def Let_def)

text \<open>
  C3, as stated, fails. \<open>Enqueue\<close> purges before it scans: at clock value 10 the
  buffer \<open>[ex_c, ex_b]\<close> holds the expired entry \<open>ex_c\<close> and the live entry
  \<open>ex_b\<close>, whose full-tuple key is that of the probe. The call returns failure, and the
  buffer it leaves has lost \<open>ex_c\<close>.
\<close>

theorem C3_duplicate_enqueue_counterexample:
  "full_key ex_b = full_key ex_probe \<and> \<not> IsExpired 10 ex_b \<and>
   Enqueue 10 ex_probe (ex_buffer 3 [ex_c, ex_b]) = Inr (False, ex_probe, ex_buffer 3 [ex_b]) \<and>
   ex_buffer 3 [ex_b] \<noteq> ex_buffer 3 [ex_c, ex_b] \<and>
   length (m_maintainBuffer (ex_buffer 3 [ex_b])) \<noteq> length (m_maintainBuffer (ex_buffer 3 [ex_c, ex_b]))"
  by (simp add: ex_defs full_key_def IsExpired_iff Enqueue_def Purge_def)

text \<open>
  C3, amended. When the entry has the full-tuple key of an entry of the buffer that is
  not expired at the time of the call, \<open>Enqueue\<close> returns failure and leaves the
  caller's entry as it was; the buffer it leaves is the purged buffer, that is the
  buffer without its expired entries and with the same capacity and timeout. So the
  buffer is unchanged when none of its entries is expired, and in every case
  \<open>GetSize\<close> at that time reports the same count before and after.
\<close>

theorem C3_duplicate_enqueue:
  assumes "x \<in> set (m_maintainBuffer b)" and "\<not> IsExpired now x" and "full_key x = full_key e"
  shows "Enqueue now e b = Inr (False, e, Purge now b) \<and>
         m_maintainBuffer (Purge now b) = filter (\<lambda>y. \<not> IsExpired now y) (m_maintainBuffer b) \<and>
         m_maxLen (Purge now b) = m_maxLen b \<and>
         m_maintainBufferTimeout (Purge now b) = m_maintainBufferTimeout b \<and>
         ((\<forall>y\<in>set (m_maintainBuffer b). \<not> IsExpired now y) \<longrightarrow> Enqueue now e b = Inr (False, e, b)) \<and>
         fst (GetSize now (Purge now b)) = fst (GetSize now b)"
proof -
  from assms have "\<exists>y\<in>set (m_maintainBuffer (Purge now b)). same_all y e"
    by (auto simp add: Purge_buffer same_all_key)
  then have "Enqueue now e b = Inr (False, e, Purge now b)" by (rule Enqueue_dup)
  then show ?thesis
    by (simp add: Purge_buffer Purge_fields Purge_id GetSize_eq Purge_idem)
qed

text \<open>At clock value 10 neither \<open>ex_a\<close> nor \<open>ex_b\<close> is expired.\<close>

theorem C3_duplicate_enqueue_witness:
  "ex_b \<in> set (m_maintainBuffer (ex_buffer 3 [ex_a, ex_b])) \<and> \<not> IsExpired 10 ex_b \<and>
   full_key ex_b = full_key ex_probe \<and>
   \<not> IsExpired 10 ex_a \<and>
   Enqueue 10 ex_probe (ex_buffer 3 [ex_a, ex_b]) = Inr (False, ex_probe, ex_buffer 3 [ex_a, ex_b])"
  using C3_duplicate_enqueue [of ex_b "ex_buffer 3 [ex_a, ex_b]" 10 ex_probe]
  by (simp add: ex_defs full_key_def IsExpired_iff)

text \<open>
  C4. \<open>Dequeue\<close> purges first. It then returns the earliest entry of the purged
  buffer whose nextHop is the argument and removes that entry and no other; when
  there is none it reports not-found, with the out-parameter and the purged buffer
  as they were. A second \<open>Dequeue\<close> with the same nextHop at the same time finds
  an entry exactly when the purged buffer held at least two entries with that nextHop.
\<close>

theorem C4_dequeue:
  "Dequeue now nextHop entry b =
     (case find (\<lambda>x. m_nextHop x = nextHop) (m_maintainBuffer (Purge now b)) of
        None \<Rightarrow> (False, entry, Purge now b)
      | Some x \<Rightarrow> (True, x, (Purge now b)\<lparr>m_maintainBuffer :=
           without_first (\<lambda>x. m_nextHop x = nextHop) (m_maintainBuffer (Purge now b))\<rparr>)) \<and>
   (fst (Dequeue now nextHop entry2 (snd (snd (Dequeue now nextHop entry b)))) \<longleftrightarrow>
      2 \<le> length (filter (\<lambda>x. m_nextHop x = nextHop) (m_maintainBuffer (Purge now b))))"
proof -
  let ?Q = "\<lambda>x. m_nextHop x = nextHop"
  let ?P = "m_maintainBuffer (Purge now b)"
  have found: "fst (Dequeue now nextHop en c) \<longleftrightarrow>
      (\<exists>x\<in>set (m_maintainBuffer (Purge now c)). ?Q x)" for en c
  proof -
    have "fst (Dequeue now nextHop en c) \<longleftrightarrow>
        find ?Q (m_maintainBuffer (Purge now c)) \<noteq> None"
      by (simp add: Dequeue_eq split: option.splits)
    then show ?thesis by (auto simp add: find_None_iff)
  qed
  have second: "fst (Dequeue now nextHop entry2 (snd (snd (Dequeue now nextHop entry b)))) \<longleftrightarrow>
      2 \<le> length (filter ?Q ?P)"
  proof (cases "find ?Q ?P")
    case None
    then have "filter ?Q ?P = []" by (simp add: find_None_iff filter_empty_conv)
    moreover from None have "snd (snd (Dequeue now nextHop entry b)) = Purge now b"
      by (simp add: Dequeue_eq)
    ultimately show ?thesis
      using None by (simp add: found Purge_idem find_None_iff)
  next
    case (Some x)
    define W where "W = without_first ?Q ?P"
    have live: "\<forall>y\<in>set W. \<not> IsExpired now y"
      using without_first_set [of ?Q ?P] unfolding W_def by (auto simp add: Purge_buffer)
    from Some have b': "snd (snd (Dequeue now nextHop entry b)) = (Purge now b)\<lparr>m_maintainBuffer := W\<rparr>"
      by (simp add: Dequeue_eq W_def)
    have "m_maintainBuffer (Purge now ((Purge now b)\<lparr>m_maintainBuffer := W\<rparr>)) =
        filter (\<lambda>y. \<not> IsExpired now y) W"
      by (simp add: Purge_buffer)
    also have "\<dots> = W" using live by simp
    finally have "fst (Dequeue now nextHop entry2 (snd (snd (Dequeue now nextHop entry b)))) \<longleftrightarrow>
        (\<exists>y\<in>set W. ?Q y)"
      by (simp only: found b')
    also have "\<dots> \<longleftrightarrow> filter ?Q W \<noteq> []" by (simp add: filter_empty_conv)
    also have "\<dots> \<longleftrightarrow> drop 1 (filter ?Q ?P) \<noteq> []"
      unfolding W_def by (simp only: filter_without_first)
    also have "\<dots> \<longleftrightarrow> 2 \<le> length (filter ?Q ?P)"
      by (cases "filter ?Q ?P") (auto simp add: Suc_le_eq)
    finally show ?thesis .
  qed
  show ?thesis using Dequeue_eq second by blast
qed

text \<open>
  At clock value 10 the entry \<open>ex_c\<close> (nextHop 8) is expired; \<open>ex_a\<close> and
  \<open>ex_b\<close> have nextHop 2.
\<close>

theorem C4_dequeue_witness:
  "Dequeue 10 2 ex_link (ex_buffer 3 [ex_c, ex_a, ex_b]) = (True, ex_a, ex_buffer 3 [ex_b]) \<and>
   fst (Dequeue 10 2 ex_link (ex_buffer 3 [ex_b])) \<and>
   Dequeue 10 8 ex_link (ex_buffer 3 [ex_c, ex_a, ex_b]) = (False, ex_link, ex_buffer 3 [ex_a, ex_b])"
  using C4_dequeue [of 10 2 ex_link "ex_buffer 3 [ex_c, ex_a, ex_b]" ex_link]
    C4_dequeue [of 10 8 ex_link "ex_buffer 3 [ex_c, ex_a, ex_b]" ex_link]
  by (simp add: ex_defs Dequeue_def Purge_def IsExpired_iff without_first_def)

text \<open>
  C5. For every entry of the buffer whose deadline lies before the clock value of the
  call, \<open>GetSize\<close> leaves the buffer without that entry: the buffer it leaves holds
  the entries whose deadline has not passed, in order, and the value returned is their
  count (converted to \<open>uint32_t\<close>, so the count itself for a buffer of fewer than
  \<open>2 ^ 32\<close> entries). A \<open>Find\<close> on the entry's nextHop afterwards returns false when
  no remaining entry has that nextHop. The other purging operations remove the entry
  too: \<open>Purge\<close>, \<open>DropPacketWithNextHop\<close>, \<open>Dequeue\<close> and \<open>Enqueue\<close>.
  \<open>Enqueue\<close> acts as it does on the purged buffer; it returns a result unless the
  capacity is 0 and the purged buffer is empty (the one case with no defined
  behaviour), and in the buffer it leaves the entry can only be present as the entry
  just enqueued. The deadline of an entry is \<open>m_expire\<close>, which \<open>Enqueue\<close> sets to
  the clock value plus the timeout.
\<close>

theorem C5_expired_entry_purged:
  assumes "e \<in> set (m_maintainBuffer b)" and "m_expire e < now"
  shows "GetSize now b =
           (of_nat (length (filter (\<lambda>x. now \<le> m_expire x) (m_maintainBuffer b))),
            b\<lparr>m_maintainBuffer := filter (\<lambda>x. now \<le> m_expire x) (m_maintainBuffer b)\<rparr>) \<and>
         e \<notin> set (m_maintainBuffer (snd (GetSize now b))) \<and>
         (length (m_maintainBuffer b) < 2 ^ 32 \<longrightarrow>
            unat (fst (GetSize now b)) = length (m_maintainBuffer (snd (GetSize now b)))) \<and>
         (\<not> (\<exists>x\<in>set (m_maintainBuffer (snd (GetSize now b))). m_nextHop x = m_nextHop e) \<longrightarrow>
            \<not> fst (Find (m_nextHop e) (snd (GetSize now b)))) \<and>
         e \<notin> set (m_maintainBuffer (Purge now b)) \<and>
         e \<notin> set (m_maintainBuffer (DropPacketWithNextHop now nextHop b)) \<and>
         e \<notin> set (m_maintainBuffer (snd (snd (Dequeue now nextHop entry b)))) \<and>
         (\<forall>ok e' b'. Enqueue now entry b = Inr (ok, e', b') \<and> e \<in> set (m_maintainBuffer b')
            \<longrightarrow> ok \<and> e = e') \<and>
         Enqueue now entry (Purge now b) = Enqueue now entry b \<and>
         (Enqueue now entry b = Inl EraseAtEnd \<longleftrightarrow>
            m_maxLen b = 0 \<and> m_maintainBuffer (Purge now b) = []) \<and>
         (m_maxLen b \<noteq> 0 \<or> m_maintainBuffer (Purge now b) \<noteq> [] \<longrightarrow>
            (\<exists>ok e' b'. Enqueue now entry b = Inr (ok, e', b') \<and>
               (e \<in> set (m_maintainBuffer b') \<longrightarrow> ok \<and> e = e')))"
proof -
  have flt: "filter (\<lambda>x. \<not> IsExpired now x) xs = filter (\<lambda>x. now \<le> m_expire x) xs" for xs
    by (simp add: IsExpired_iff not_less)
  have exp: "IsExpired now e" using assms(2) by (simp add: IsExpired_iff)
  have size: "GetSize now b =
           (of_nat (length (filter (\<lambda>x. now \<le> m_expire x) (m_maintainBuffer b))),
            b\<lparr>m_maintainBuffer := filter (\<lambda>x. now \<le> m_expire x) (m_maintainBuffer b)\<rparr>)"
    by (simp add: GetSize_eq Purge_eq flt)
  have gone: "e \<notin> set (m_maintainBuffer (Purge now b))"
    using exp by (simp add: Purge_buffer)
  have count: "unat (fst (GetSize now b)) = length (m_maintainBuffer (snd (GetSize now b)))"
    if "length (m_maintainBuffer b) < 2 ^ 32"
  proof -
    have "length (m_maintainBuffer (Purge now b)) \<le> length (m_maintainBuffer b)"
      by (simp add: Purge_buffer)
    with that have "length (m_maintainBuffer (Purge now b)) < 2 ^ 32" by simp
    then have "unat (of_nat (length (m_maintainBuffer (Purge now b))) :: 32 word) =
        length (m_maintainBuffer (Purge now b))"
      by (simp add: unat_of_nat)
    then show ?thesis by (simp add: GetSize_eq)
  qed
  have drop: "e \<notin> set (m_maintainBuffer (DropPacketWithNextHop now nextHop b))"
    using exp by (simp add: DropPacketWithNextHop_eq Purge_buffer)
  have deq: "e \<notin> set (m_maintainBuffer (snd (snd (Dequeue now nextHop entry b))))"
    using exp Dequeue_buffer_set [of now nextHop entry b] by auto
  have enq: "ok \<and> e = e'"
    if "Enqueue now entry b = Inr (ok, e', b')" "e \<in> set (m_maintainBuffer b')" for ok e' b'
    using Enqueue_result_set [OF that(1)] that(2) exp by (auto split: if_splits)
  have old: "GetSize now b =
           (of_nat (length (filter (\<lambda>x. now \<le> m_expire x) (m_maintainBuffer b))),
            b\<lparr>m_maintainBuffer := filter (\<lambda>x. now \<le> m_expire x) (m_maintainBuffer b)\<rparr>) \<and>
         e \<notin> set (m_maintainBuffer (snd (GetSize now b))) \<and>
         (length (m_maintainBuffer b) < 2 ^ 32 \<longrightarrow>
            unat (fst (GetSize now b)) = length (m_maintainBuffer (snd (GetSize now b)))) \<and>
         (\<not> (\<exists>x\<in>set (m_maintainBuffer (snd (GetSize now b))). m_nextHop x = m_nextHop e) \<longrightarrow>
            \<not> fst (Find (m_nextHop e) (snd (GetSize now b)))) \<and>
         e \<notin> set (m_maintainBuffer (Purge now b)) \<and>
         e \<notin> set (m_maintainBuffer (DropPacketWithNextHop now nextHop b)) \<and>
         e \<notin> set (m_maintainBuffer (snd (snd (Dequeue now nextHop entry b)))) \<and>
         (\<forall>ok e' b'. Enqueue now entry b = Inr (ok, e', b') \<and> e \<in> set (m_maintainBuffer b')
            \<longrightarrow> ok \<and> e = e')"
    using size gone count drop deq enq by (simp add: GetSize_eq Find_eq) blast
  have total: "\<exists>ok e' b'. Enqueue now entry b = Inr (ok, e', b') \<and>
               (e \<in> set (m_maintainBuffer b') \<longrightarrow> ok \<and> e = e')"
    if "m_maxLen b \<noteq> 0 \<or> m_maintainBuffer (Purge now b) \<noteq> []"
  proof -
    from that have "Enqueue now entry b \<noteq> Inl EraseAtEnd" by (auto simp add: Enqueue_fault_iff)
    then obtain r where "Enqueue now entry b = Inr r"
      by (cases "Enqueue now entry b") (auto intro: fault.exhaust)
    then obtain ok e' b' where r: "Enqueue now entry b = Inr (ok, e', b')"
      by (cases r) auto
    with enq show ?thesis by blast
  qed
  have new: "Enqueue now entry (Purge now b) = Enqueue now entry b \<and>
         (Enqueue now entry b = Inl EraseAtEnd \<longleftrightarrow>
            m_maxLen b = 0 \<and> m_maintainBuffer (Purge now b) = []) \<and>
         (m_maxLen b \<noteq> 0 \<or> m_maintainBuffer (Purge now b) \<noteq> [] \<longrightarrow>
            (\<exists>ok e' b'. Enqueue now entry b = Inr (ok, e', b') \<and>
               (e \<in> set (m_maintainBuffer b') \<longrightarrow> ok \<and> e = e')))"
    using total by (simp add: Enqueue_purged Enqueue_fault_iff)
  from old new show ?thesis by (elim conjE) (intro conjI; assumption)
qed

text \<open>
  At clock value 10 the entry \<open>ex_c\<close> (deadline 5, nextHop 8) is expired and
  \<open>ex_a\<close> (deadline 100, nextHop 2) is not. With capacity 3 \<open>Enqueue\<close> returns and
  leaves the buffer without \<open>ex_c\<close>; with capacity 0 and \<open>ex_c\<close> alone in the
  buffer it has no defined behaviour.
\<close>

theorem C5_expired_entry_purged_witness:
  "ex_c \<in> set (m_maintainBuffer (ex_buffer 3 [ex_c, ex_a])) \<and> m_expire ex_c < 10 \<and>
   length (m_maintainBuffer (ex_buffer 3 [ex_c, ex_a])) < 2 ^ 32 \<and>
   GetSize 10 (ex_buffer 3 [ex_c, ex_a]) = (1, ex_buffer 3 [ex_a]) \<and>
   unat (fst (GetSize 10 (ex_buffer 3 [ex_c, ex_a]))) = 1 \<and>
   m_nextHop ex_a \<noteq> m_nextHop ex_c \<and>
   \<not> fst (Find (m_nextHop ex_c) (snd (GetSize 10 (ex_buffer 3 [ex_c, ex_a])))) \<and>
   m_maxLen (ex_buffer 3 [ex_c, ex_a]) \<noteq> 0 \<and>
   Enqueue 10 ex_probe (ex_buffer 3 [ex_c, ex_a]) =
     Inr (True, ex_probe\<lparr>m_expire := 60\<rparr>, ex_buffer 3 [ex_a, ex_probe\<lparr>m_expire := 60\<rparr>]) \<and>
   ex_c \<in> set (m_maintainBuffer (ex_buffer 0 [ex_c])) \<and>
   Enqueue 10 ex_probe (ex_buffer 0 [ex_c]) = Inl EraseAtEnd"
  using C5_expired_entry_purged [of ex_c "ex_buffer 3 [ex_c, ex_a]" 10 0 ex_probe]
    C5_expired_entry_purged [of ex_c "ex_buffer 0 [ex_c]" 10 0 ex_probe]
  by (simp add: ex_defs GetSize_def Purge_def Find_def IsExpired_iff Enqueue_def
      SetExpireTime_def Let_def)

text \<open>
  C6. \<open>DropPacketWithNextHop\<close> purges, then removes every entry whose nextHop is
  the argument: the buffer it leaves holds the entries of the purged buffer with
  another nextHop, unchanged and in their order, and nothing else; capacity and
  timeout are unchanged.
\<close>

theorem C6_drop_by_next_hop:
  "DropPacketWithNextHop now nextHop b =
     b\<lparr>m_maintainBuffer :=
        filter (\<lambda>x. m_nextHop x \<noteq> nextHop) (m_maintainBuffer (Purge now b))\<rparr> \<and>
   (\<forall>x\<in>set (m_maintainBuffer (DropPacketWithNextHop now nextHop b)). m_nextHop x \<noteq> nextHop) \<and>
   filter (\<lambda>x. m_nextHop x \<noteq> nextHop) (m_maintainBuffer (DropPacketWithNextHop now nextHop b)) =
     filter (\<lambda>x. m_nextHop x \<noteq> nextHop) (m_maintainBuffer (Purge now b))"
  by (simp add: DropPacketWithNextHop_eq Purge_eq)

text \<open>
  At clock value 0 nothing is expired and dropping nextHop 2 leaves \<open>ex_c\<close> (nextHop
  8); at clock value 10 the purge has removed \<open>ex_c\<close> as well.
\<close>

theorem C6_drop_by_next_hop_witness:
  "DropPacketWithNextHop 0 2 (ex_buffer 3 [ex_a, ex_c, ex_b]) = ex_buffer 3 [ex_c] \<and>
   DropPacketWithNextHop 10 2 (ex_buffer 3 [ex_a, ex_c, ex_b]) = ex_buffer 3 [] \<and>
   m_nextHop ex_c \<noteq> 2"
proof -
  note drop = C6_drop_by_next_hop [THEN conjunct1]
  show ?thesis
    by (simp add: drop [of 0 2] drop [of 10 2] Purge_def IsExpired_iff ex_defs)
qed

text \<open>
  C7. \<open>Find\<close> leaves the buffer as it is and returns whether any entry, expired or
  not, has the given nextHop. None of the four reconciliation operations purges
  before matching: each succeeds exactly when some entry of the buffer, expired or
  not, qualifies, and every expired entry that does not qualify is still in the
  buffer afterwards. \<open>GetSize\<close> and \<open>DropPacketWithNextHop\<close> leave no expired entry
  in the buffer, and \<open>Enqueue\<close> leaves none but, possibly, the entry it has just
  added; \<open>Enqueue\<close> rejects an entry exactly when an entry that is not expired has
  its full-tuple key, so the purge comes before the duplicate scan.
\<close>

theorem C7_purge_policy:
  "Find nextHop b = ((\<exists>x\<in>set (m_maintainBuffer b). m_nextHop x = nextHop), b) \<and>
   (fst (AllEqual e b) \<longleftrightarrow> (\<exists>x\<in>set (m_maintainBuffer b). same_all x e)) \<and>
   (\<forall>x\<in>set (m_maintainBuffer b). IsExpired now x \<and> \<not> same_all x e \<longrightarrow>
      x \<in> set (m_maintainBuffer (snd (AllEqual e b)))) \<and>
   (fst (NetworkEqual e b) \<longleftrightarrow> (\<exists>x\<in>set (m_maintainBuffer b). same_network x e)) \<and>
   (\<forall>x\<in>set (m_maintainBuffer b). IsExpired now x \<and> \<not> same_network x e \<longrightarrow>
      x \<in> set (m_maintainBuffer (snd (NetworkEqual e b)))) \<and>
   (fst (PromiscEqual e b) \<longleftrightarrow> (\<exists>x\<in>set (m_maintainBuffer b). same_promisc x e)) \<and>
   (\<forall>x\<in>set (m_maintainBuffer b). IsExpired now x \<and> \<not> same_promisc x e \<longrightarrow>
      x \<in> set (m_maintainBuffer (snd (PromiscEqual e b)))) \<and>
   (fst (LinkEqual e b) \<longleftrightarrow> (\<exists>x\<in>set (m_maintainBuffer b). same_link x e)) \<and>
   (\<forall>x\<in>set (m_maintainBuffer b). IsExpired now x \<and> \<not> same_link x e \<longrightarrow>
      x \<in> set (m_maintainBuffer (snd (LinkEqual e b)))) \<and>
   (\<forall>x\<in>set (m_maintainBuffer (snd (GetSize now b))). \<not> IsExpired now x) \<and>
   (\<forall>x\<in>set (m_maintainBuffer (DropPacketWithNextHop now nextHop b)). \<not> IsExpired now x) \<and>
   (\<forall>ok e' b'. Enqueue now e b = Inr (ok, e', b') \<longrightarrow>
      (\<forall>x\<in>set (m_maintainBuffer b'). IsExpired now x \<longrightarrow> ok \<and> x = e')) \<and>
   ((\<exists>e' b'. Enqueue now e b = Inr (False, e', b')) \<longleftrightarrow>
      (\<exists>x\<in>set (m_maintainBuffer b). \<not> IsExpired now x \<and> same_all x e))"
proof -
  have enq: "ok \<and> x = e'"
    if "Enqueue now e b = Inr (ok, e', b')" "x \<in> set (m_maintainBuffer b')" "IsExpired now x"
    for ok e' b' x
    using Enqueue_result_set [OF that(1)] that(2,3) by (auto split: if_splits)
  have size: "\<forall>x\<in>set (m_maintainBuffer (snd (GetSize now b))). \<not> IsExpired now x"
    by (simp add: GetSize_eq Purge_buffer)
  have drop: "\<forall>x\<in>set (m_maintainBuffer (DropPacketWithNextHop now nextHop b)). \<not> IsExpired now x"
    by (simp add: DropPacketWithNextHop_eq Purge_buffer)
  show ?thesis
    using enq size drop Enqueue_rejected_iff [of now e b]
    by (simp add: Find_eq AllEqual_eq NetworkEqual_eq PromiscEqual_eq LinkEqual_eq
        without_first_keeps) blast
qed

text \<open>
  At clock value 10 the entry \<open>ex_c\<close> is expired. \<open>Find\<close> still finds its nextHop
  and \<open>PromiscEqual\<close> still matches it; the other three operations match \<open>ex_b\<close>
  and leave \<open>ex_c\<close> in the buffer; \<open>GetSize\<close>, \<open>DropPacketWithNextHop\<close> and
  \<open>Enqueue\<close> remove it.
\<close>

theorem C7_purge_policy_witness:
  "IsExpired 10 ex_c \<and> \<not> IsExpired 10 ex_b \<and>
   Find 8 (ex_buffer 3 [ex_c, ex_b]) = (True, ex_buffer 3 [ex_c, ex_b]) \<and>
   same_promisc ex_c ex_probe \<and>
   PromiscEqual ex_probe (ex_buffer 3 [ex_c, ex_b]) = (True, ex_buffer 3 [ex_b]) \<and>
   \<not> same_all ex_c ex_probe \<and>
   AllEqual ex_probe (ex_buffer 3 [ex_c, ex_b]) = (True, ex_buffer 3 [ex_c]) \<and>
   NetworkEqual ex_probe (ex_buffer 3 [ex_c, ex_b]) = (True, ex_buffer 3 [ex_c]) \<and>
   LinkEqual ex_probe (ex_buffer 3 [ex_c, ex_b]) = (True, ex_buffer 3 [ex_c]) \<and>
   GetSize 10 (ex_buffer 3 [ex_c, ex_b]) = (1, ex_buffer 3 [ex_b]) \<and>
   DropPacketWithNextHop 10 1 (ex_buffer 3 [ex_c, ex_b]) = ex_buffer 3 [ex_b] \<and>
   Enqueue 10 ex_a (ex_buffer 3 [ex_c, ex_b]) =
     Inr (True, ex_a\<lparr>m_expire := 60\<rparr>, ex_buffer 3 [ex_b, ex_a\<lparr>m_expire := 60\<rparr>])"
proof -
  note pol = C7_purge_policy [of 8 "ex_buffer 3 [ex_c, ex_b]" ex_probe 10, THEN conjunct1]
  show ?thesis
    unfolding pol
    by (simp add: ex_defs IsExpired_iff same_promisc_def same_all_def
        PromiscEqual_def AllEqual_def NetworkEqual_def LinkEqual_def GetSize_def
        DropPacketWithNextHop_def Enqueue_def Purge_def SetExpireTime_def Let_def)
qed

text \<open>
  C8. \<open>Enqueue\<close>, when it accepts an entry, stores it at the back of the buffer with
  expireTime equal to the clock value plus the timeout. No operation changes the
  expireTime, or any other field, of an entry in the buffer: after \<open>Dequeue\<close>,
  \<open>Find\<close>, \<open>DropPacketWithNextHop\<close>, each of the four reconciliation operations,
  \<open>Purge\<close> and \<open>GetSize\<close>, the buffer is the earlier buffer with some entries
  deleted (\<open>subseq\<close>), and so is the buffer after \<open>Enqueue\<close> apart from the entry
  it has just added.
\<close>

theorem C8_expire_time_frame:
  "(Enqueue now e b = Inr (True, e', b') \<longrightarrow>
      m_maintainBuffer b' \<noteq> [] \<and> last (m_maintainBuffer b') = e' \<and>
      m_expire e' = now + m_maintainBufferTimeout b \<and>
      subseq (butlast (m_maintainBuffer b')) (m_maintainBuffer b)) \<and>
   (Enqueue now e b = Inr (False, e', b') \<longrightarrow>
      subseq (m_maintainBuffer b') (m_maintainBuffer b)) \<and>
   subseq (m_maintainBuffer (snd (snd (Dequeue now nextHop e b)))) (m_maintainBuffer b) \<and>
   m_maintainBuffer (snd (Find nextHop b)) = m_maintainBuffer b \<and>
   subseq (m_maintainBuffer (DropPacketWithNextHop now nextHop b)) (m_maintainBuffer b) \<and>
   subseq (m_maintainBuffer (snd (AllEqual e b))) (m_maintainBuffer b) \<and>
   subseq (m_maintainBuffer (snd (NetworkEqual e b))) (m_maintainBuffer b) \<and>
   subseq (m_maintainBuffer (snd (PromiscEqual e b))) (m_maintainBuffer b) \<and>
   subseq (m_maintainBuffer (snd (LinkEqual e b))) (m_maintainBuffer b) \<and>
   subseq (m_maintainBuffer (Purge now b)) (m_maintainBuffer b) \<and>
   subseq (m_maintainBuffer (snd (GetSize now b))) (m_maintainBuffer b)"
proof -
  have new: "m_maintainBuffer b' \<noteq> [] \<and> last (m_maintainBuffer b') = e' \<and>
      m_expire e' = now + m_maintainBufferTimeout b"
    if "Enqueue now e b = Inr (True, e', b')"
    using that by (rule_tac Enqueue_cases [of now b e]) (auto simp add: SetExpireTime_def)
  have old: "subseq (butlast (m_maintainBuffer b')) (m_maintainBuffer b)"
    if "Enqueue now e b = Inr (True, e', b')"
    using Enqueue_subseq [OF that] by simp
  have rej: "subseq (m_maintainBuffer b') (m_maintainBuffer b)"
    if "Enqueue now e b = Inr (False, e', b')"
    using Enqueue_subseq [OF that] by simp
  show ?thesis
    using new old rej
    by (simp add: Dequeue_subseq DropPacketWithNextHop_subseq Purge_subseq GetSize_eq Find_eq
        AllEqual_eq NetworkEqual_eq PromiscEqual_eq LinkEqual_eq without_first_subseq)
qed

text \<open>
  With capacity 2 and timeout 50, enqueueing \<open>ex_link\<close> at clock value 10 into
  \<open>[ex_a, ex_b]\<close> evicts \<open>ex_a\<close>, keeps \<open>ex_b\<close> as it was and stores the new entry
  with expireTime 60.
\<close>

theorem C8_expire_time_frame_witness:
  "Enqueue 10 ex_link (ex_buffer 2 [ex_a, ex_b]) =
     Inr (True, ex_link\<lparr>m_expire := 60\<rparr>, ex_buffer 2 [ex_b, ex_link\<lparr>m_expire := 60\<rparr>]) \<and>
   m_expire (ex_link\<lparr>m_expire := 60\<rparr>) = 10 + m_maintainBufferTimeout (ex_buffer 2 [ex_a, ex_b]) \<and>
   subseq [ex_b] [ex_a, ex_b] \<and>
   Enqueue 10 ex_probe (ex_buffer 2 [ex_a, ex_b]) = Inr (False, ex_probe, ex_buffer 2 [ex_a, ex_b])"
  using C8_expire_time_frame [of 10 ex_link "ex_buffer 2 [ex_a, ex_b]" "ex_link\<lparr>m_expire := 60\<rparr>"
      "ex_buffer 2 [ex_b, ex_link\<lparr>m_expire := 60\<rparr>]" 2]
    C8_expire_time_frame [of 10 ex_probe "ex_buffer 2 [ex_a, ex_b]" ex_probe
      "ex_buffer 2 [ex_a, ex_b]" 2]
  by (simp add: ex_defs Enqueue_def Purge_def IsExpired_iff SetExpireTime_def Let_def)

text \<open>
  C9. \<open>Purge\<close> removes exactly the entries whose expiry measure
  (\<open>GetExpireTime\<close>, the deadline minus the clock value) is strictly negative, that is
  whose deadline is strictly before the clock value. An entry whose deadline is the
  clock value stays in the buffer and is counted by \<open>GetSize\<close>.
\<close>

theorem C9_purge_strictly_negative:
  "m_maintainBuffer (Purge now b) =
     filter (\<lambda>x. \<not> GetExpireTime now x < 0) (m_maintainBuffer b) \<and>
   (\<forall>x\<in>set (m_maintainBuffer b).
      x \<notin> set (m_maintainBuffer (Purge now b)) \<longleftrightarrow> m_expire x < now) \<and>
   (\<forall>x\<in>set (m_maintainBuffer b).
      m_expire x = now \<longrightarrow>
        x \<in> set (m_maintainBuffer (Purge now b)) \<and>
        x \<in> set (m_maintainBuffer (snd (GetSize now b)))) \<and>
   fst (GetSize now b) =
     of_nat (length (filter (\<lambda>x. now \<le> m_expire x) (m_maintainBuffer b)))"
proof -
  have "(\<lambda>x. \<not> IsExpired now x) = (\<lambda>x. \<not> GetExpireTime now x < 0)"
    by (simp add: IsExpired_def IsStrictlyNegative_def)
  moreover have "(\<lambda>x. \<not> IsExpired now x) = (\<lambda>x. now \<le> m_expire x)"
    by (simp add: IsExpired_iff not_less)
  ultimately show ?thesis
    by (auto simp add: Purge_buffer GetSize_eq IsExpired_iff)
qed

text \<open>
  The deadline of \<open>ex_c\<close> is 5: at clock value 5 it stays and is counted, at
  clock value 6 it is removed.
\<close>

theorem C9_purge_strictly_negative_witness:
  "ex_c \<in> set (m_maintainBuffer (ex_buffer 3 [ex_c, ex_a])) \<and> m_expire ex_c = 5 \<and>
   Purge 5 (ex_buffer 3 [ex_c, ex_a]) = ex_buffer 3 [ex_c, ex_a] \<and>
   GetSize 5 (ex_buffer 3 [ex_c, ex_a]) = (2, ex_buffer 3 [ex_c, ex_a]) \<and>
   Purge 6 (ex_buffer 3 [ex_c, ex_a]) = ex_buffer 3 [ex_a] \<and>
   GetSize 6 (ex_buffer 3 [ex_c, ex_a]) = (1, ex_buffer 3 [ex_a])"
  using C9_purge_strictly_negative [of 5 "ex_buffer 3 [ex_c, ex_a]"]
    C9_purge_strictly_negative [of 6 "ex_buffer 3 [ex_c, ex_a]"]
  by (simp add: ex_defs Purge_def GetSize_def IsExpired_iff GetExpireTime_def)

text \<open>
  C10. \<open>Enqueue\<close> takes its argument by reference. When it returns true (the entry
  is no duplicate of an entry of the purged buffer), the caller's entry has its
  expireTime overwritten with the timeout plus the clock value, and the entry at the
  back of the buffer is a copy of it. When it returns false (a duplicate), the caller's
  entry is as it was. The call has no defined behaviour, and so no result, only when
  the capacity is 0 and the purged buffer is empty.
\<close>

theorem C10_enqueue_argument:
  "(Enqueue now e b = Inr (True, e', b') \<longrightarrow>
      e' = e\<lparr>m_expire := m_maintainBufferTimeout b + now\<rparr> \<and>
      m_maintainBuffer b' \<noteq> [] \<and> last (m_maintainBuffer b') = e' \<and>
      \<not> (\<exists>x\<in>set (m_maintainBuffer (Purge now b)). same_all x e)) \<and>
   (Enqueue now e b = Inr (False, e', b') \<longrightarrow>
      e' = e \<and> (\<exists>x\<in>set (m_maintainBuffer (Purge now b)). same_all x e)) \<and>
   (Enqueue now e b = Inl EraseAtEnd \<longleftrightarrow>
      m_maxLen b = 0 \<and> m_maintainBuffer (Purge now b) = [])"
proof -
  have "Enqueue now e b = Inl EraseAtEnd \<longleftrightarrow>
      m_maxLen b = 0 \<and> m_maintainBuffer (Purge now b) = []"
    by (rule Enqueue_fault_iff)
  moreover have "Enqueue now e b = Inr (False, e', b') \<longrightarrow>
      e' = e \<and> (\<exists>x\<in>set (m_maintainBuffer (Purge now b)). same_all x e)"
    by (rule Enqueue_cases [of now b e]) auto
  moreover have "Enqueue now e b = Inr (True, e', b') \<longrightarrow>
      e' = e\<lparr>m_expire := m_maintainBufferTimeout b + now\<rparr> \<and>
      m_maintainBuffer b' \<noteq> [] \<and> last (m_maintainBuffer b') = e' \<and>
      \<not> (\<exists>x\<in>set (m_maintainBuffer (Purge now b)). same_all x e)"
    by (rule Enqueue_cases [of now b e]) (auto simp add: SetExpireTime_def)
  ultimately show ?thesis by blast
qed

text \<open>
  Enqueueing \<open>ex_link\<close> (expireTime 0) at clock value 10 with timeout 50 leaves the
  caller's entry with expireTime 60; the duplicate \<open>ex_probe\<close> is returned as it
  was.
\<close>

theorem C10_enqueue_argument_witness:
  "Enqueue 10 ex_link (ex_buffer 3 [ex_a]) =
     Inr (True, ex_link\<lparr>m_expire := 60\<rparr>, ex_buffer 3 [ex_a, ex_link\<lparr>m_expire := 60\<rparr>]) \<and>
   ex_link\<lparr>m_expire := 60\<rparr> \<noteq> ex_link \<and>
   Enqueue 10 ex_probe (ex_buffer 3 [ex_b]) = Inr (False, ex_probe, ex_buffer 3 [ex_b]) \<and>
   Enqueue 10 ex_probe (ex_buffer 0 []) = Inl EraseAtEnd"
  using C10_enqueue_argument [of 10 ex_link "ex_buffer 3 [ex_a]" "ex_link\<lparr>m_expire := 60\<rparr>"
      "ex_buffer 3 [ex_a, ex_link\<lparr>m_expire := 60\<rparr>]"]
    C10_enqueue_argument [of 10 ex_probe "ex_buffer 3 [ex_b]" ex_probe "ex_buffer 3 [ex_b]"]
    C10_enqueue_argument [of 10 ex_probe "ex_buffer 0 []"]
  by (simp add: ex_defs Enqueue_def Purge_def IsExpired_iff SetExpireTime_def Let_def)

end
